theory Spec2Isabelle
  imports Complex_Main "HOL-Library.Word" "HOL-Library.Signed_Division"
begin

section \<open>Intelligent traffic system: the sketch as HOL functions\<close>

text \<open>
  The development embeds \<^verbatim>\<open>IntelligentTrafficSystem.ino\<close>. The sketch targets the
  Arduino UNO (AVR): \<^verbatim>\<open>unsigned int\<close> is 16 bits wide, \<^verbatim>\<open>long\<close> and
  \<^verbatim>\<open>unsigned long\<close> are 32 bits wide and \<^verbatim>\<open>float\<close> is the IEEE 754 binary32
  format. Unsigned arithmetic wraps around, as \<open>+\<close> and \<open>-\<close> on words do.

  The globals of the sketch form one record that every function takes and returns.
  Everything a function reads from the hardware (the clock \<^verbatim>\<open>millis()\<close>, the buttons,
  the echo pulse of a sensor) is an explicit argument, so one run of \<^verbatim>\<open>loop()\<close> is a
  function of the state before it and of the values read during it.
\<close>

subsection \<open>Configuration\<close>

definition CYCLE_TOTAL_MS :: "32 word" where
  "CYCLE_TOTAL_MS = 120 * 1000"

definition SENSOR_POLL_MS :: "32 word" where
  "SENSOR_POLL_MS = 60"

definition EMERGENCY_GREEN_MS :: "32 word" where
  "EMERGENCY_GREEN_MS = 10 * 1000"

definition DIST_THRESHOLD_CM :: "16 word" where
  "DIST_THRESHOLD_CM = 60"

definition PRESENCE_DEBOUNCE_MS :: "32 word" where
  "PRESENCE_DEBOUNCE_MS = 80"

definition ABSENCE_DEBOUNCE_MS :: "32 word" where
  "ABSENCE_DEBOUNCE_MS = 120"

subsection \<open>State\<close>

record SensorState =
  present :: bool
  lastChange :: "32 word"
  waitingForAbsence :: bool

text \<open>The value of \<^verbatim>\<open>SensorState()\<close>: the default member initialisers.\<close>

definition SensorState_init :: SensorState where
  "SensorState_init = \<lparr>present = False, lastChange = 0, waitingForAbsence = False\<rparr>"

datatype LightPhase = PHASE_RED | PHASE_YELLOW | PHASE_GREEN

datatype SystemState = STATE_COUNTING | STATE_EXECUTING_TIMES | STATE_EMERGENCY

text \<open>The three LED pins of one road; \<open>True\<close> is \<^verbatim>\<open>HIGH\<close>.\<close>

record Leds =
  red :: bool
  yellow :: bool
  green :: bool

record Globals =
  lastSensorPoll :: "32 word"
  cycleStartTime :: "32 word"
  countA :: "16 word"
  countB :: "16 word"
  sA :: SensorState
  sB :: SensorState
  sysState :: SystemState
  execPhaseStart :: "32 word"
  greenDurationA :: "32 word"
  greenDurationB :: "32 word"
  executingAfirst :: bool
  emerActive :: bool
  emerStart :: "32 word"
  emerRoad :: "8 word"
  ledsA :: Leds
  ledsB :: Leds

text \<open>
  What one run of \<^verbatim>\<open>loop()\<close> reads from the hardware, in the order of the reads. A
  button field is \<open>True\<close> when \<^verbatim>\<open>digitalRead\<close> returns \<^verbatim>\<open>LOW\<close> (pressed); the second
  read of a button comes after \<^verbatim>\<open>delay(10)\<close>. A pulse is the value of \<^verbatim>\<open>pulseIn\<close>,
  which is 0 when no echo arrives within the timeout. Each call of \<^verbatim>\<open>millis()\<close> has
  its own field, since the clock advances while \<^verbatim>\<open>loop()\<close> runs.
\<close>

record TickEnv =
  millisLoop :: "32 word"
  buttonA1 :: bool
  buttonA2 :: bool
  millisEmerA :: "32 word"
  buttonB1 :: bool
  buttonB2 :: bool
  millisEmerB :: "32 word"
  pulseA :: "32 word"
  millisSensorA :: "32 word"
  pulseB :: "32 word"
  millisSensorB :: "32 word"
  millisExec :: "32 word"
  millisReset :: "32 word"

subsection \<open>Lights\<close>

definition setRoadLights :: "LightPhase \<Rightarrow> Leds" where
  "setRoadLights p =
     \<lparr>red = (p = PHASE_RED), yellow = (p = PHASE_YELLOW), green = (p = PHASE_GREEN)\<rparr>"

text \<open>
  What a road shows in a phase, LED by LED: the LED of that colour and no other. The
  theorems below state the lights of the roads with it.
\<close>

definition lamps :: "LightPhase \<Rightarrow> Leds" where
  "lamps p =
     (case p of
        PHASE_RED \<Rightarrow> \<lparr>red = True, yellow = False, green = False\<rparr>
      | PHASE_YELLOW \<Rightarrow> \<lparr>red = False, yellow = True, green = False\<rparr>
      | PHASE_GREEN \<Rightarrow> \<lparr>red = False, yellow = False, green = True\<rparr>)"

definition setRoadLightsA :: "LightPhase \<Rightarrow> Globals \<Rightarrow> Globals" where
  "setRoadLightsA p s = s\<lparr>ledsA := setRoadLights p\<rparr>"

definition setRoadLightsB :: "LightPhase \<Rightarrow> Globals \<Rightarrow> Globals" where
  "setRoadLightsB p s = s\<lparr>ledsB := setRoadLights p\<rparr>"

subsection \<open>Sensors\<close>

text \<open>
  \<^verbatim>\<open>measureDistanceCM\<close> after the trigger pulse: the argument is the value of
  \<^verbatim>\<open>pulseIn\<close>, stored in a \<^verbatim>\<open>long\<close>; the division is the signed division of C.
\<close>

definition measureDistanceCM :: "32 word \<Rightarrow> 32 word" where
  "measureDistanceCM duration =
     (if duration = 0 then - 1 else word_of_int (sint duration sdiv 58))"

text \<open>
  The comparison of the \<^verbatim>\<open>long\<close> distance with the \<^verbatim>\<open>unsigned int\<close> threshold is a
  comparison of \<^verbatim>\<open>long\<close> values.
\<close>

definition isPresent :: "32 word \<Rightarrow> bool" where
  "isPresent d \<longleftrightarrow> 0 < sint d \<and> sint d \<le> uint DIST_THRESHOLD_CM"

definition updateSensor ::
  "SensorState \<Rightarrow> 16 word \<Rightarrow> 32 word \<Rightarrow> 32 word \<Rightarrow> SensorState \<times> 16 word" where
  "updateSensor s counter pulse now =
     (let d = measureDistanceCM pulse; p = isPresent d in
      if p \<noteq> present s then
        if (if p then PRESENCE_DEBOUNCE_MS else ABSENCE_DEBOUNCE_MS) \<le> now - lastChange s then
          (let s = s\<lparr>present := p, lastChange := now\<rparr> in
           if p then (s\<lparr>waitingForAbsence := True\<rparr>, counter)
           else if waitingForAbsence s then (s\<lparr>waitingForAbsence := False\<rparr>, counter + 1)
           else (s, counter))
        else (s, counter)
      else (s, counter))"

subsection \<open>The green time formula\<close>

text \<open>
  A finite \<^verbatim>\<open>float\<close> is the rational number it denotes. An operation on floats is the
  exact operation followed by \<open>f32\<close>, the rounding of IEEE 754 binary32 to the nearest
  representable number, ties to the even significand: \<open>binade\<close> finds the exponent
  (between \<open>-126\<close>, where the subnormal numbers lie, and \<open>127\<close>), \<open>ulp\<close> is the
  distance of neighbouring floats at that exponent and \<open>rne\<close> rounds the significand.
  Infinities and NaN are not modelled: \<^verbatim>\<open>computeGreenMs\<close> takes two 16-bit counts, so no
  value it computes exceeds \<open>131072\<close> in magnitude, and its divisor is positive
  (lemmas \<open>formula_values_finite\<close> and \<open>denom_positive\<close> below).
\<close>

definition rne :: "rat \<Rightarrow> int" where
  "rne x = (let f = \<lfloor>x\<rfloor>; r = x - of_int f in
     if r < 1 / 2 then f else if 1 / 2 < r then f + 1 else if even f then f else f + 1)"

primrec binade :: "nat \<Rightarrow> rat \<Rightarrow> int" where
  "binade 0 q = - 126"
| "binade (Suc k) q = (if 2 powi (int k - 125) \<le> q then int k - 125 else binade k q)"

definition f32_exp :: "rat \<Rightarrow> int" where
  "f32_exp q = binade 253 \<bar>q\<bar>"

definition ulp :: "rat \<Rightarrow> rat" where
  "ulp q = 2 powi (f32_exp q - 23)"

definition f32 :: "rat \<Rightarrow> rat" where
  "f32 q = of_int (rne (q / ulp q)) * ulp q"

text \<open>The conversions \<^verbatim>\<open>(float)x\<close> and \<^verbatim>\<open>(unsigned long)v\<close>; the latter truncates.\<close>

definition float_of_uint :: "16 word \<Rightarrow> rat" where
  "float_of_uint x = f32 (of_nat (unat x))"

definition ulong_of_float :: "rat \<Rightarrow> 32 word" where
  "ulong_of_float v = word_of_int (if 0 \<le> v then \<lfloor>v\<rfloor> else \<lceil>v\<rceil>)"

definition computeGreenMs :: "16 word \<Rightarrow> 16 word \<Rightarrow> 32 word" where
  "computeGreenMs x y =
     (let denom = f32 (f32 (float_of_uint x + float_of_uint y) + f32 (1 / 100));
          ratio = (if 0 < denom then f32 (float_of_uint x / denom) else f32 (1 / 2));
          tsec = f32 (f32 (ratio * f32 60) + f32 30);
          tsec = (if tsec < f32 30 then f32 30 else tsec);
          tsec = (if f32 90 < tsec then f32 90 else tsec)
      in ulong_of_float (f32 (tsec * f32 1000)))"

subsection \<open>Phases of the controller\<close>

definition startExecutionPhase :: "32 word \<Rightarrow> Globals \<Rightarrow> Globals" where
  "startExecutionPhase millis s =
     (let s = s\<lparr>greenDurationA := computeGreenMs (countA s) (countB s)\<rparr>;
          s = s\<lparr>greenDurationB := CYCLE_TOTAL_MS - greenDurationA s\<rparr>;
          s = s\<lparr>executingAfirst := (countB s \<le> countA s)\<rparr>;
          s = s\<lparr>sysState := STATE_EXECUTING_TIMES, execPhaseStart := millis\<rparr>
      in if executingAfirst s then setRoadLightsB PHASE_RED (setRoadLightsA PHASE_GREEN s)
         else setRoadLightsB PHASE_GREEN (setRoadLightsA PHASE_RED s))"

definition triggerEmergency :: "8 word \<Rightarrow> 32 word \<Rightarrow> Globals \<Rightarrow> Globals" where
  "triggerEmergency road millis s =
     (let s = s\<lparr>emerActive := True, emerStart := millis, emerRoad := road,
                sysState := STATE_EMERGENCY\<rparr>
      in if road = 1 then setRoadLightsB PHASE_RED (setRoadLightsA PHASE_GREEN s)
         else setRoadLightsB PHASE_GREEN (setRoadLightsA PHASE_RED s))"

definition resetCountingCycle :: "32 word \<Rightarrow> Globals \<Rightarrow> Globals" where
  "resetCountingCycle millis s =
     s\<lparr>countA := 0, countB := 0, sA := SensorState_init, sB := SensorState_init,
       cycleStartTime := millis, sysState := STATE_COUNTING, lastSensorPoll := 0\<rparr>"

subsection \<open>One run of loop\<close>

text \<open>The two button checks at the head of \<^verbatim>\<open>loop()\<close>.\<close>

definition checkButtons :: "TickEnv \<Rightarrow> Globals \<Rightarrow> Globals" where
  "checkButtons env s =
     (let s = (if buttonA1 env \<and> buttonA2 env then triggerEmergency 1 (millisEmerA env) s else s)
      in if buttonB1 env \<and> buttonB2 env then triggerEmergency 2 (millisEmerB env) s else s)"

text \<open>
  The two checks one by one: the state between them is the state in which the button
  of road B is read.
\<close>

definition checkButtonA :: "TickEnv \<Rightarrow> Globals \<Rightarrow> Globals" where
  "checkButtonA env s =
     (if buttonA1 env \<and> buttonA2 env then triggerEmergency 1 (millisEmerA env) s else s)"

definition checkButtonB :: "TickEnv \<Rightarrow> Globals \<Rightarrow> Globals" where
  "checkButtonB env s =
     (if buttonB1 env \<and> buttonB2 env then triggerEmergency 2 (millisEmerB env) s else s)"

text \<open>The two calls of \<^verbatim>\<open>updateSensor\<close> of a sensor poll.\<close>

definition pollSensors :: "TickEnv \<Rightarrow> Globals \<Rightarrow> Globals" where
  "pollSensors env s =
     (let (a, ca) = updateSensor (sA s) (countA s) (pulseA env) (millisSensorA env);
          s = s\<lparr>sA := a, countA := ca\<rparr>;
          (b, cb) = updateSensor (sB s) (countB s) (pulseB env) (millisSensorB env)
      in s\<lparr>sB := b, countB := cb\<rparr>)"

text \<open>The case \<^verbatim>\<open>STATE_EXECUTING_TIMES\<close> of the switch.\<close>

definition executeTimes :: "32 word \<Rightarrow> 32 word \<Rightarrow> Globals \<Rightarrow> Globals" where
  "executeTimes now millis s =
     (let elapsed = now - execPhaseStart s in
      if executingAfirst s then
        if elapsed < greenDurationA s then s
        else if elapsed < greenDurationA s + 3000 then
          setRoadLightsB PHASE_RED (setRoadLightsA PHASE_YELLOW s)
        else if elapsed < greenDurationA s + 3000 + greenDurationB s then
          setRoadLightsB PHASE_GREEN (setRoadLightsA PHASE_RED s)
        else if elapsed < greenDurationA s + 3000 + greenDurationB s + 3000 then
          setRoadLightsB PHASE_YELLOW (setRoadLightsA PHASE_RED s)
        else resetCountingCycle millis s
      else
        if elapsed < greenDurationB s then s
        else if elapsed < greenDurationB s + 3000 then
          setRoadLightsB PHASE_YELLOW (setRoadLightsA PHASE_RED s)
        else if elapsed < greenDurationB s + 3000 + greenDurationA s then
          setRoadLightsB PHASE_RED (setRoadLightsA PHASE_GREEN s)
        else if elapsed < greenDurationB s + 3000 + greenDurationA s + 3000 then
          setRoadLightsB PHASE_RED (setRoadLightsA PHASE_YELLOW s)
        else resetCountingCycle millis s)"

text \<open>The switch on \<^verbatim>\<open>sysState\<close>; \<open>now\<close> is the clock value read at the head of \<^verbatim>\<open>loop()\<close>.\<close>

definition stateMachine :: "TickEnv \<Rightarrow> Globals \<Rightarrow> Globals" where
  "stateMachine env s =
     (let now = millisLoop env in
      case sysState s of
        STATE_COUNTING \<Rightarrow>
          (let s = (if SENSOR_POLL_MS \<le> now - lastSensorPoll s
                    then pollSensors env (s\<lparr>lastSensorPoll := now\<rparr>) else s)
           in if CYCLE_TOTAL_MS \<le> now - cycleStartTime s
              then startExecutionPhase (millisExec env) s else s)
      | STATE_EXECUTING_TIMES \<Rightarrow> executeTimes now (millisReset env) s
      | STATE_EMERGENCY \<Rightarrow>
          (if EMERGENCY_GREEN_MS \<le> now - emerStart s
           then resetCountingCycle (millisReset env) (s\<lparr>emerActive := False, emerRoad := 0\<rparr>)
           else s))"

definition loop :: "Globals \<Rightarrow> TickEnv \<Rightarrow> Globals" where
  "loop s env = stateMachine env (checkButtons env s)"

subsection \<open>Runs\<close>

text \<open>
  A sequence of polls of one sensor: each element is the pulse read and the clock value
  read in \<^verbatim>\<open>updateSensor\<close>.
\<close>

fun pollSequence ::
  "SensorState \<times> 16 word \<Rightarrow> (32 word \<times> 32 word) list \<Rightarrow> SensorState \<times> 16 word" where
  "pollSequence sc [] = sc"
| "pollSequence (s, c) ((pulse, now) # rs) = pollSequence (updateSensor s c pulse now) rs"

text \<open>
  A poll counts a pass when it executes \<^verbatim>\<open>counter++\<close>; \<open>passEvents\<close> is the number of
  such polls in a sequence.
\<close>

definition passCounted :: "SensorState \<Rightarrow> 32 word \<Rightarrow> 32 word \<Rightarrow> bool" where
  "passCounted s pulse now \<longleftrightarrow> snd (updateSensor s 0 pulse now) = 1"

fun passEvents :: "SensorState \<Rightarrow> (32 word \<times> 32 word) list \<Rightarrow> nat" where
  "passEvents s [] = 0"
| "passEvents s ((pulse, now) # rs) =
     (if passCounted s pulse now then 1 else 0) +
     passEvents (fst (updateSensor s 0 pulse now)) rs"

text \<open>Successive runs of \<^verbatim>\<open>loop()\<close>.\<close>

fun runLoop :: "Globals \<Rightarrow> TickEnv list \<Rightarrow> Globals" where
  "runLoop s [] = s"
| "runLoop s (env # envs) = runLoop (loop s env) envs"

subsection \<open>The sequencer of the specification\<close>

text \<open>
  The phase pair (road A, road B) that the specification assigns to a time elapsed in
  the execution window, in milliseconds: green for the first road, yellow for the first
  road for 3 s, green and then yellow for the other road, the road that is not served
  red; segments are closed on the left and open on the right, and \<open>None\<close> says that
  the window is complete. It is compared below with what \<^verbatim>\<open>loop()\<close> does.
\<close>

definition spec_phaseAt ::
  "bool \<Rightarrow> nat \<Rightarrow> nat \<Rightarrow> nat \<Rightarrow> (LightPhase \<times> LightPhase) option" where
  "spec_phaseAt aFirst durationA durationB elapsed =
     (let d1 = (if aFirst then durationA else durationB);
          d2 = (if aFirst then durationB else durationA);
          first = (\<lambda>p. if aFirst then (p, PHASE_RED) else (PHASE_RED, p));
          other = (\<lambda>p. if aFirst then (PHASE_RED, p) else (p, PHASE_RED))
      in if elapsed < d1 then Some (first PHASE_GREEN)
         else if elapsed < d1 + 3000 then Some (first PHASE_YELLOW)
         else if elapsed < d1 + 3000 + d2 then Some (other PHASE_GREEN)
         else if elapsed < d1 + 3000 + d2 + 3000 then Some (other PHASE_YELLOW)
         else None)"

text \<open>Writing a phase pair to the lights of the two roads.\<close>

definition applyPhases :: "LightPhase \<times> LightPhase \<Rightarrow> Globals \<Rightarrow> Globals" where
  "applyPhases pp s = setRoadLightsB (snd pp) (setRoadLightsA (fst pp) s)"

subsection \<open>Start-up and sample inputs\<close>

text \<open>The initialisers of the globals; the LED pins are low at power-up.\<close>

definition initGlobals :: Globals where
  "initGlobals =
     \<lparr>lastSensorPoll = 0, cycleStartTime = 0, countA = 0, countB = 0,
      sA = SensorState_init, sB = SensorState_init, sysState = STATE_COUNTING,
      execPhaseStart = 0, greenDurationA = 60 * 1000, greenDurationB = 60 * 1000,
      executingAfirst = True, emerActive = False, emerStart = 0, emerRoad = 0,
      ledsA = \<lparr>red = False, yellow = False, green = False\<rparr>,
      ledsB = \<lparr>red = False, yellow = False, green = False\<rparr>\<rparr>"

definition setupSketch :: "32 word \<Rightarrow> Globals" where
  "setupSketch millis =
     resetCountingCycle millis (setRoadLightsB PHASE_RED (setRoadLightsA PHASE_RED initGlobals))"

text \<open>
  A run of \<^verbatim>\<open>loop()\<close> that starts at time \<open>t\<close> with no button pressed and no echo;
  the clock reads ten milliseconds more after a \<^verbatim>\<open>delay(10)\<close>.
\<close>

definition quietEnv :: "32 word \<Rightarrow> TickEnv" where
  "quietEnv t =
     \<lparr>millisLoop = t, buttonA1 = False, buttonA2 = False, millisEmerA = t + 10,
      buttonB1 = False, buttonB2 = False, millisEmerB = t + 10,
      pulseA = 0, millisSensorA = t, pulseB = 0, millisSensorB = t,
      millisExec = t, millisReset = t\<rparr>"

definition pressA :: "32 word \<Rightarrow> TickEnv" where
  "pressA t = (quietEnv t)\<lparr>buttonA1 := True, buttonA2 := True\<rparr>"

definition pressB :: "32 word \<Rightarrow> TickEnv" where
  "pressB t = (quietEnv t)\<lparr>buttonB1 := True, buttonB2 := True\<rparr>"

text \<open>Road B is green in the middle of an execution window; road A was served first.\<close>

definition executingExample :: Globals where
  "executingExample =
     initGlobals\<lparr>sysState := STATE_EXECUTING_TIMES, execPhaseStart := 1000,
       greenDurationA := 50000, greenDurationB := 70000, executingAfirst := True,
       ledsA := setRoadLights PHASE_RED, ledsB := setRoadLights PHASE_GREEN\<rparr>"

text \<open>
  Both buttons are pressed in one run; the clock reads ten milliseconds more after each
  \<^verbatim>\<open>delay(10)\<close>.
\<close>

definition pressBoth :: "32 word \<Rightarrow> TickEnv" where
  "pressBoth t =
     (quietEnv t)\<lparr>buttonA1 := True, buttonA2 := True, buttonB1 := True, buttonB2 := True,
       millisEmerB := t + 20\<rparr>"

text \<open>
  The clock has advanced, by at most a second, when \<^verbatim>\<open>triggerEmergency\<close> reads it after
  the \<^verbatim>\<open>delay(10)\<close> of a button check; the differences are those of the wrapping clock.
\<close>

definition clockAdvances :: "TickEnv \<Rightarrow> bool" where
  "clockAdvances env \<longleftrightarrow>
     0 < millisEmerA env - millisLoop env \<and> millisEmerA env - millisLoop env \<le> 1000 \<and>
     0 < millisEmerB env - millisLoop env \<and> millisEmerB env - millisLoop env \<le> 1000"

text \<open>
  Two runs in which a vehicle passes the sensor of road A (an echo of 580 microseconds,
  10 cm, at time 1000 and no echo at time 1200), and the state they lead to from
  start-up.
\<close>

definition vehicleOnA :: "TickEnv list" where
  "vehicleOnA = [(quietEnv 1000)\<lparr>pulseA := 580\<rparr>, quietEnv 1200]"

definition oneCounted :: Globals where
  "oneCounted = runLoop (setupSketch 100) vehicleOnA"


text \<open>A counting window whose sensors were polled at time 1000.\<close>

definition polledExample :: Globals where
  "polledExample = (setupSketch 100)\<lparr>lastSensorPoll := 1000\<rparr>"

text \<open>
  Sample polls: echoes of 580 and 1160 microseconds are 10 cm and 20 cm, one of 5800
  microseconds is 100 cm, and 0 is a timeout.
\<close>

definition onReadings :: "(32 word \<times> 32 word) list" where
  "onReadings = [(580, 1000), (580, 1060), (1160, 1120)]"

definition offReadings :: "(32 word \<times> 32 word) list" where
  "offReadings = [(0, 1180), (5800, 1240), (0, 1300)]"

definition idleSensor :: SensorState where
  "idleSensor = SensorState_init\<lparr>lastChange := 950\<rparr>"

definition busySensor :: SensorState where
  "busySensor = \<lparr>present = True, lastChange = 1060, waitingForAbsence = True\<rparr>"

text \<open>
  The start of an execution window with road A first, 50 s of green for road A and
  70 s for road B; the window starts at time 1000.
\<close>

definition windowStart :: Globals where
  "windowStart =
     initGlobals\<lparr>sysState := STATE_EXECUTING_TIMES, execPhaseStart := 1000,
       greenDurationA := 50000, greenDurationB := 70000, executingAfirst := True,
       ledsA := setRoadLights PHASE_GREEN, ledsB := setRoadLights PHASE_RED\<rparr>"

text \<open>A counting window with one vehicle on each road.\<close>

definition equalExample :: Globals where
  "equalExample = (setupSketch 100)\<lparr>countA := 1, countB := 1\<rparr>"

section \<open>Properties of the rounding\<close>

text \<open>
  Rounding is monotone around representable numbers, and a number with an integer
  significand at its exponent is its own rounding. These facts carry every bound below.
\<close>

lemma rne_of_int: "rne (of_int m) = m"
  by (simp add: rne_def)

lemma rne_le: "x \<le> of_int M \<Longrightarrow> rne x \<le> M"
proof -
  assume a: "x \<le> of_int M"
  have f: "\<lfloor>x\<rfloor> \<le> M" using a by (simp add: floor_le_iff) 
  show ?thesis
  proof (cases "\<lfloor>x\<rfloor> = M")
    case True
    then have "x = of_int M" using a of_int_floor_le[of x] by simp
    then show ?thesis by (simp add: rne_of_int)
  next
    case False
    then have "\<lfloor>x\<rfloor> + 1 \<le> M" using f by simp
    then show ?thesis by (simp add: rne_def Let_def)
  qed
qed

lemma rne_ge: "of_int M \<le> x \<Longrightarrow> M \<le> rne x"
proof -
  assume a: "of_int M \<le> x"
  then have "M \<le> \<lfloor>x\<rfloor>" by (simp add: le_floor_iff)
  then show ?thesis by (simp add: rne_def Let_def)
qed

lemma binade_le: "binade k q \<le> int k - 126"
  by (induction k) auto

lemma binade_ge: "- 126 \<le> binade k q"
  by (induction k) auto

lemma binade_lower: "- 126 < binade k q \<Longrightarrow> 2 powi (binade k q) \<le> q"
  by (induction k) (auto split: if_splits)

lemma binade_upper: "q < 2 powi (int k - 125) \<Longrightarrow> q < 2 powi (binade k q + 1)"
proof (induction k)
  case 0
  then show ?case by simp
next
  case (Suc k)
  show ?case
  proof (cases "2 powi (int k - 125) \<le> q")
    case True
    then show ?thesis using Suc.prems by (simp add: algebra_simps)
  next
    case False
    then show ?thesis using Suc.IH by simp
  qed
qed

lemma binade_mono: "q \<le> q' \<Longrightarrow> binade k q \<le> binade k q'"
proof (induction k)
  case 0
  then show ?case by simp
next
  case (Suc k)
  then show ?case using binade_le[of k q] by auto
qed

lemma pow2_less_cancel: "(2::rat) powi m < 2 powi n \<Longrightarrow> m < n"
proof (rule ccontr)
  assume a: "(2::rat) powi m < 2 powi n" and "\<not> m < n"
  then have "n \<le> m" by simp
  then have "(2::rat) powi n \<le> 2 powi m" by (rule power_int_increasing) simp
  with a show False by simp
qed

lemma binade_eq:
  assumes "e = - 126 \<or> 2 powi e \<le> q" "q < 2 powi (e + 1)" "- 126 \<le> e" "e \<le> int k - 126"
  shows "binade k q = e"
  using assms
proof (induction k)
  case 0
  then show ?case by simp
next
  case (Suc k)
  show ?case
  proof (cases "2 powi (int k - 125) \<le> q")
    case True
    have "(2::rat) powi (int k - 125) < 2 powi (e + 1)"
      using True Suc.prems(2) by simp
    then have "int k - 125 < e + 1" by (rule pow2_less_cancel)
    then have "e = int k - 125" using Suc.prems(4) by simp
    then show ?thesis using True by simp
  next
    case False
    have "e \<noteq> int k - 125" 
    proof
      assume h: "e = int k - 125"
      then have "e \<noteq> - 126" by simp
      then show False using Suc.prems(1) h False by simp
    qed
    then have "e \<le> int k - 126" using Suc.prems(4) by simp
    then show ?thesis using Suc.IH Suc.prems False by simp
  qed
qed

lemma f32_exp_eq:
  assumes "e = - 126 \<or> 2 powi e \<le> \<bar>q\<bar>" "\<bar>q\<bar> < 2 powi (e + 1)" "- 126 \<le> e" "e \<le> 127"
  shows "f32_exp q = e"
  unfolding f32_exp_def using assms by (intro binade_eq) simp_all

lemma f32_eq:
  assumes "e = - 126 \<or> 2 powi e \<le> \<bar>q\<bar>" "\<bar>q\<bar> < 2 powi (e + 1)" "- 126 \<le> e" "e \<le> 127"
  shows "f32 q = of_int (rne (q / 2 powi (e - 23))) * 2 powi (e - 23)"
  by (simp add: f32_def ulp_def f32_exp_eq[OF assms])

lemma ulp_pos: "0 < ulp q"
  by (simp add: ulp_def)

lemma f32_exp_mono: "\<bar>q\<bar> \<le> \<bar>q'\<bar> \<Longrightarrow> f32_exp q \<le> f32_exp q'"
  unfolding f32_exp_def by (rule binade_mono)

lemma ulp_mult: "f32_exp q \<le> f32_exp b \<Longrightarrow> ulp b = of_int (2 ^ nat (f32_exp b - f32_exp q)) * ulp q"
proof -
  assume a: "f32_exp q \<le> f32_exp b"
  have "f32_exp b - 23 = (f32_exp b - f32_exp q) + (f32_exp q - 23)" by simp
  then have "ulp b = 2 powi (f32_exp b - f32_exp q) * ulp q"
    unfolding ulp_def by (metis power_int_add zero_neq_numeral)
  moreover have "(2::rat) powi (f32_exp b - f32_exp q) = of_int (2 ^ nat (f32_exp b - f32_exp q))"
    using a by (simp add: power_int_def)
  ultimately show ?thesis by simp
qed

lemma f32_nonneg: "0 \<le> q \<Longrightarrow> 0 \<le> f32 q"
proof -
  assume "0 \<le> q"
  then have "of_int 0 \<le> q / ulp q" using ulp_pos[of q] by simp
  then have "0 \<le> rne (q / ulp q)" by (rule rne_ge)
  then show ?thesis using ulp_pos[of q] by (simp add: f32_def)
qed

lemma f32_le:
  assumes "0 \<le> q" "q \<le> b" "f32 b = b"
  shows "f32 q \<le> b"
proof -
  have e: "f32_exp q \<le> f32_exp b" using assms by (intro f32_exp_mono) simp
  define M where "M = rne (b / ulp b) * 2 ^ nat (f32_exp b - f32_exp q)"
  have "b = of_int (rne (b / ulp b)) * ulp b" using assms(3) by (simp add: f32_def)
  then have b: "b = of_int M * ulp q" unfolding M_def using ulp_mult[OF e] by simp
  have "q / ulp q \<le> of_int M" using assms(2) b ulp_pos[of q] by (simp add: field_simps)
  then have "rne (q / ulp q) \<le> M" by (rule rne_le)
  then have "of_int (rne (q / ulp q)) * ulp q \<le> of_int M * ulp q"
    using ulp_pos[of q] by simp
  then show ?thesis using b by (simp add: f32_def)
qed

lemma f32_exp_lower: "- 126 < f32_exp q \<Longrightarrow> 2 powi (f32_exp q) \<le> \<bar>q\<bar>"
  unfolding f32_exp_def by (rule binade_lower)

lemma f32_exp_upper: "\<bar>q\<bar> < 2 powi 128 \<Longrightarrow> \<bar>q\<bar> < 2 powi (f32_exp q + 1)"
  unfolding f32_exp_def using binade_upper[of "\<bar>q\<bar>" 253] by simp

lemma f32_ge:
  assumes "0 \<le> a" "a \<le> q" "f32 a = a" "q < 2 powi 128"
  shows "a \<le> f32 q"
proof (cases "f32_exp a = f32_exp q")
  case True
  then have u: "ulp a = ulp q" by (simp add: ulp_def)
  have a: "a = of_int (rne (a / ulp a)) * ulp q" using assms(3) u by (simp add: f32_def)
  then have "of_int (rne (a / ulp a)) \<le> q / ulp q"
    using assms(2) ulp_pos[of q] by (simp add: field_simps)
  then have "rne (a / ulp a) \<le> rne (q / ulp q)" by (rule rne_ge)
  then have "of_int (rne (a / ulp a)) * ulp q \<le> of_int (rne (q / ulp q)) * ulp q"
    using ulp_pos[of q] by simp
  then show ?thesis using a by (simp add: f32_def)
next
  case False
  have "f32_exp a \<le> f32_exp q" using assms by (intro f32_exp_mono) simp
  then have lt: "f32_exp a < f32_exp q" using False by simp
  have "- 126 \<le> f32_exp a" unfolding f32_exp_def by (rule binade_ge)
  then have lo: "2 powi (f32_exp q) \<le> \<bar>q\<bar>" using lt by (intro f32_exp_lower) simp
  have "\<bar>a\<bar> < 2 powi 128" using assms by simp
  then have "\<bar>a\<bar> < 2 powi (f32_exp a + 1)" by (rule f32_exp_upper)
  moreover have "(2::rat) powi (f32_exp a + 1) \<le> 2 powi (f32_exp q)"
    using lt by (intro power_int_increasing) simp_all
  ultimately have a: "a < 2 powi (f32_exp q)" using assms(1) by simp
  have "(2::rat) powi (f32_exp q) = of_int (2 ^ 23) * ulp q"
  proof -
    have "f32_exp q = 23 + (f32_exp q - 23)" by simp
    then have "(2::rat) powi (f32_exp q) = 2 powi 23 * 2 powi (f32_exp q - 23)"
      by (metis power_int_add zero_neq_numeral)
    then show ?thesis by (simp add: ulp_def)
  qed
  then have "of_int (2 ^ 23) \<le> q / ulp q"
    using lo assms ulp_pos[of q] by (simp add: field_simps)
  then have "2 ^ 23 \<le> rne (q / ulp q)" by (rule rne_ge)
  then have "of_int (2 ^ 23) * ulp q \<le> of_int (rne (q / ulp q)) * ulp q"
    using ulp_pos[of q] by simp
  then have "2 powi (f32_exp q) \<le> f32 q"
    using \<open>(2::rat) powi (f32_exp q) = of_int (2 ^ 23) * ulp q\<close> by (simp add: f32_def)
  then show ?thesis using a by simp
qed

lemma rne_eqI:
  assumes "of_int m - 1 / 2 < x" "x < of_int m + 1 / 2"
  shows "rne x = m"
proof -
  have "m - 1 \<le> \<lfloor>x\<rfloor>" using assms(1) by (simp add: le_floor_iff)
  moreover have "\<lfloor>x\<rfloor> \<le> m" using assms(2) by (simp add: floor_le_iff)
  ultimately consider "\<lfloor>x\<rfloor> = m" | "\<lfloor>x\<rfloor> = m - 1" by linarith
  then show ?thesis
  proof cases
    case 1
    then show ?thesis using assms by (simp add: rne_def)
  next
    case 2
    then show ?thesis using assms by (simp add: rne_def)
  qed
qed

lemma f32_eqI:
  assumes "e = - 126 \<or> 2 powi e \<le> \<bar>q\<bar>" "\<bar>q\<bar> < 2 powi (e + 1)" "- 126 \<le> e" "e \<le> 127"
    and "of_int m - 1 / 2 < q / 2 powi (e - 23)" "q / 2 powi (e - 23) < of_int m + 1 / 2"
  shows "f32 q = of_int m * 2 powi (e - 23)"
  using f32_eq[OF assms(1-4)] rne_eqI[OF assms(5,6)] by simp

text \<open>The constants of the formula are floats.\<close>

lemma f32_30 [simp]: "f32 30 = 30"
  using f32_eqI[of 4 30 15728640] by simp

lemma f32_60 [simp]: "f32 60 = 60"
  using f32_eqI[of 5 60 15728640] by simp

lemma f32_90 [simp]: "f32 90 = 90"
  using f32_eqI[of 6 90 11796480] by simp

lemma f32_1000 [simp]: "f32 1000 = 1000"
  using f32_eqI[of 9 1000 16384000] by simp

lemma f32_30000: "f32 30000 = 30000"
  using f32_eqI[of 14 30000 15360000] by simp

lemma f32_90000: "f32 90000 = 90000"
  using f32_eqI[of 16 90000 11520000] by simp

lemma clamp_ms_range:
  assumes "30 \<le> t" "t \<le> 90"
  shows "30000 \<le> f32 (t * 1000)" "f32 (t * 1000) \<le> 90000"
proof -
  show "30000 \<le> f32 (t * 1000)"
    using assms by (intro f32_ge f32_30000) simp_all
  show "f32 (t * 1000) \<le> 90000"
    using assms by (intro f32_le f32_90000) simp_all
qed

lemma ulong_of_float_unat:
  assumes "0 \<le> v" "v < 2 ^ 32"
  shows "unat (ulong_of_float v) = nat \<lfloor>v\<rfloor>"
proof -
  have "0 \<le> \<lfloor>v\<rfloor>" using assms(1) by simp
  moreover have "\<lfloor>v\<rfloor> < 2 ^ 32" using assms(2) by (simp add: floor_less_iff)
  ultimately show ?thesis using assms(1)
    by (simp add: ulong_of_float_def unat_eq_nat_uint uint_word_of_int take_bit_int_eq_self)
qed

lemma computeGreenMs_range:
  "30000 \<le> unat (computeGreenMs x y) \<and> unat (computeGreenMs x y) \<le> 90000"
proof -
  define denom where "denom = f32 (f32 (float_of_uint x + float_of_uint y) + f32 (1 / 100))"
  define ratio where "ratio = (if 0 < denom then f32 (float_of_uint x / denom) else f32 (1 / 2))"
  define t0 where "t0 = f32 (f32 (ratio * f32 60) + f32 30)"
  define t1 where "t1 = (if t0 < f32 30 then f32 30 else t0)"
  define t2 where "t2 = (if f32 90 < t1 then f32 90 else t1)"
  define v where "v = f32 (t2 * f32 1000)"
  have c: "computeGreenMs x y = ulong_of_float v"
    by (simp add: computeGreenMs_def Let_def denom_def ratio_def t0_def t1_def t2_def v_def)
  have "30 \<le> t1" by (simp add: t1_def)
  then have t2: "30 \<le> t2" "t2 \<le> 90" by (simp_all add: t2_def)
  have v: "30000 \<le> v" "v \<le> 90000"
    using clamp_ms_range[OF t2] by (simp_all add: v_def)
  then have "unat (ulong_of_float v) = nat \<lfloor>v\<rfloor>"
    by (intro ulong_of_float_unat) simp_all
  moreover have "(30000::int) \<le> \<lfloor>v\<rfloor>"
    using v(1) le_floor_iff[of 30000 v] by simp
  moreover have "\<lfloor>v\<rfloor> \<le> (90000::int)"
    using v(2) floor_mono[of v 90000] by simp
  ultimately show ?thesis unfolding c by linarith
qed

section \<open>The green time allocation\<close>

text \<open>
  Claim C1. For all counts \<open>x\<close> and \<open>y\<close> at the end of a counting window, the green time
  computed for road A lies between 30 s and 90 s, and the green times of the two roads
  add up to exactly 120 s: road B gets the total minus the clamped time of road A.
\<close>

theorem green_allocation_clamped:
  "30000 \<le> unat (greenDurationA (startExecutionPhase millis s)) \<and>
   unat (greenDurationA (startExecutionPhase millis s)) \<le> 90000 \<and>
   unat (greenDurationA (startExecutionPhase millis s)) +
     unat (greenDurationB (startExecutionPhase millis s)) = 120000 \<and>
   greenDurationA (startExecutionPhase millis s) = computeGreenMs (countA s) (countB s)"
proof -
  let ?a = "computeGreenMs (countA s) (countB s)"
  have a: "greenDurationA (startExecutionPhase millis s) = ?a"
    by (simp add: startExecutionPhase_def Let_def setRoadLightsA_def setRoadLightsB_def)
  have b: "greenDurationB (startExecutionPhase millis s) = CYCLE_TOTAL_MS - ?a"
    by (simp add: startExecutionPhase_def Let_def setRoadLightsA_def setRoadLightsB_def)
  have r: "30000 \<le> unat ?a" "unat ?a \<le> 90000"
    using computeGreenMs_range[of "countA s" "countB s"] by simp_all
  have "unat (CYCLE_TOTAL_MS - ?a) = 120000 - unat ?a"
    using r(2) by (simp add: CYCLE_TOTAL_MS_def unat_sub_if_size)
  then show ?thesis using a b r by simp
qed

section \<open>Emergency preemption\<close>

lemmas light_defs = setRoadLightsA_def setRoadLightsB_def

lemmas example_defs = executingExample_def setupSketch_def initGlobals_def
  pressA_def pressB_def quietEnv_def

lemma lamps_eq: "lamps p = setRoadLights p"
  by (cases p) (simp_all add: lamps_def setRoadLights_def)

lemma leds_triggerEmergency:
  "ledsA (triggerEmergency road t s) = setRoadLights (if road = 1 then PHASE_GREEN else PHASE_RED)"
  "ledsB (triggerEmergency road t s) = setRoadLights (if road = 1 then PHASE_RED else PHASE_GREEN)"
  by (simp_all add: triggerEmergency_def Let_def light_defs)

lemma sysState_triggerEmergency: "sysState (triggerEmergency road t s) = STATE_EMERGENCY"
  by (simp add: triggerEmergency_def Let_def light_defs)

lemma leds_resetCountingCycle:
  "ledsA (resetCountingCycle t s) = ledsA s" "ledsB (resetCountingCycle t s) = ledsB s"
  by (simp_all add: resetCountingCycle_def)

lemma stateMachine_emergency:
  "sysState s = STATE_EMERGENCY \<Longrightarrow>
   stateMachine env s =
     (if EMERGENCY_GREEN_MS \<le> millisLoop env - emerStart s
      then resetCountingCycle (millisReset env) (s\<lparr>emerActive := False, emerRoad := 0\<rparr>)
      else s)"
  by (simp add: stateMachine_def)

lemma leds_stateMachine_emergency:
  "sysState s = STATE_EMERGENCY \<Longrightarrow> ledsA (stateMachine env s) = ledsA s"
  "sysState s = STATE_EMERGENCY \<Longrightarrow> ledsB (stateMachine env s) = ledsB s"
  by (simp_all add: stateMachine_emergency leds_resetCountingCycle)

lemma checkButtons_pressed:
  "buttonB1 env \<and> buttonB2 env \<Longrightarrow>
     checkButtons env s = triggerEmergency 2 (millisEmerB env)
       (if buttonA1 env \<and> buttonA2 env then triggerEmergency 1 (millisEmerA env) s else s)"
  "buttonA1 env \<and> buttonA2 env \<Longrightarrow> \<not> (buttonB1 env \<and> buttonB2 env) \<Longrightarrow>
     checkButtons env s = triggerEmergency 1 (millisEmerA env) s"
  "\<not> (buttonA1 env \<and> buttonA2 env) \<Longrightarrow> \<not> (buttonB1 env \<and> buttonB2 env) \<Longrightarrow>
     checkButtons env s = s"
  by (auto simp add: checkButtons_def Let_def)

text \<open>
  Claim C3. In every mode the buttons are read before the switch on the mode, and a run
  of \<^verbatim>\<open>loop()\<close> that observes an emergency signal ends with the requested road green
  and the other road red, whatever the lights were: the switch then finds the mode
  Emergency and runs the emergency case, which writes no light. When both signals are
  observed the request of road B, handled second, replaces that of road A.
\<close>

theorem emergency_priority:
  assumes "buttonA1 env \<and> buttonA2 env \<or> buttonB1 env \<and> buttonB2 env"
  shows "loop s env = stateMachine env (checkButtons env s) \<and>
    sysState (checkButtons env s) = STATE_EMERGENCY \<and>
    ledsA (loop s env) = lamps (if buttonB1 env \<and> buttonB2 env then PHASE_RED else PHASE_GREEN) \<and>
    ledsB (loop s env) = lamps (if buttonB1 env \<and> buttonB2 env then PHASE_GREEN else PHASE_RED)"
proof (cases "buttonB1 env \<and> buttonB2 env")
  case True
  then show ?thesis
    by (simp add: lamps_eq loop_def checkButtons_pressed(1) leds_stateMachine_emergency
        sysState_triggerEmergency leds_triggerEmergency del: split_paired_All)
next
  case False
  then have a: "buttonA1 env \<and> buttonA2 env" using assms by blast
  show ?thesis using False
    by (auto simp add: lamps_eq loop_def checkButtons_pressed(2)[OF a False] leds_stateMachine_emergency
        sysState_triggerEmergency leds_triggerEmergency)
qed

theorem emergency_priority_witness:
  "(buttonA1 (pressA 61000) \<and> buttonA2 (pressA 61000) \<or>
    buttonB1 (pressA 61000) \<and> buttonB2 (pressA 61000)) \<and>
   sysState executingExample = STATE_EXECUTING_TIMES \<and>
   ledsA executingExample = lamps PHASE_RED \<and>
   ledsB executingExample = lamps PHASE_GREEN \<and>
   ledsA (loop executingExample (pressA 61000)) = lamps PHASE_GREEN \<and>
   ledsB (loop executingExample (pressA 61000)) = lamps PHASE_RED"
proof -
  have a: "buttonA1 (pressA 61000) \<and> buttonA2 (pressA 61000)"
    by (simp add: pressA_def)
  have b: "\<not> (buttonB1 (pressA 61000) \<and> buttonB2 (pressA 61000))"
    by (simp add: pressA_def quietEnv_def)
  have "ledsA (loop executingExample (pressA 61000)) =
      lamps (if buttonB1 (pressA 61000) \<and> buttonB2 (pressA 61000)
        then PHASE_RED else PHASE_GREEN) \<and>
    ledsB (loop executingExample (pressA 61000)) =
      lamps (if buttonB1 (pressA 61000) \<and> buttonB2 (pressA 61000)
        then PHASE_GREEN else PHASE_RED)"
    using emergency_priority[of "pressA 61000" executingExample] a by blast
  then show ?thesis using a b
    by (simp add: lamps_eq executingExample_def initGlobals_def)
qed

lemma emer_triggerEmergency:
  "emerRoad (triggerEmergency road t s) = road" "emerStart (triggerEmergency road t s) = t"
  "emerActive (triggerEmergency road t s)"
  by (simp_all add: triggerEmergency_def Let_def light_defs)

lemma checkButtons_split: "checkButtons env s = checkButtonB env (checkButtonA env s)"
  by (simp add: checkButtons_def checkButtonA_def checkButtonB_def Let_def)

text \<open>
  Claim C4, as stated, fails. From start-up, take a run of \<^verbatim>\<open>loop()\<close> in which both
  buttons are pressed. The check of button A makes the emergency of road A active (mode
  Emergency, road A green). The signal of road B, observed next, is not ignored: it
  changes the lights, the emergency road and the start of the emergency time.
\<close>

theorem second_emergency_not_ignored:
  "sysState (setupSketch 100) = STATE_COUNTING \<and>
   buttonA1 (pressBoth 5000) \<and> buttonA2 (pressBoth 5000) \<and>
   buttonB1 (pressBoth 5000) \<and> buttonB2 (pressBoth 5000) \<and>
   sysState (checkButtonA (pressBoth 5000) (setupSketch 100)) = STATE_EMERGENCY \<and>
   emerActive (checkButtonA (pressBoth 5000) (setupSketch 100)) \<and>
   emerRoad (checkButtonA (pressBoth 5000) (setupSketch 100)) = 1 \<and>
   checkButtons (pressBoth 5000) (setupSketch 100) =
     checkButtonB (pressBoth 5000) (checkButtonA (pressBoth 5000) (setupSketch 100)) \<and>
   ledsA (checkButtons (pressBoth 5000) (setupSketch 100)) \<noteq>
     ledsA (checkButtonA (pressBoth 5000) (setupSketch 100)) \<and>
   ledsB (checkButtons (pressBoth 5000) (setupSketch 100)) \<noteq>
     ledsB (checkButtonA (pressBoth 5000) (setupSketch 100)) \<and>
   emerRoad (checkButtons (pressBoth 5000) (setupSketch 100)) \<noteq>
     emerRoad (checkButtonA (pressBoth 5000) (setupSketch 100)) \<and>
   emerStart (checkButtons (pressBoth 5000) (setupSketch 100)) \<noteq>
     emerStart (checkButtonA (pressBoth 5000) (setupSketch 100)) \<and>
   ledsA (loop (setupSketch 100) (pressBoth 5000)) \<noteq>
     ledsA (checkButtonA (pressBoth 5000) (setupSketch 100)) \<and>
   ledsB (loop (setupSketch 100) (pressBoth 5000)) \<noteq>
     ledsB (checkButtonA (pressBoth 5000) (setupSketch 100))"
proof -
  have b: "buttonA1 (pressBoth 5000) \<and> buttonA2 (pressBoth 5000)"
    "buttonB1 (pressBoth 5000) \<and> buttonB2 (pressBoth 5000)"
    "millisEmerA (pressBoth 5000) = 5010" "millisEmerB (pressBoth 5000) = 5020"
    by (simp_all add: pressBoth_def quietEnv_def)
  have a: "checkButtonA (pressBoth 5000) (setupSketch 100) = triggerEmergency 1 5010 (setupSketch 100)"
    by (simp add: checkButtonA_def b)
  have c: "checkButtons (pressBoth 5000) (setupSketch 100) =
      triggerEmergency 2 5020 (triggerEmergency 1 5010 (setupSketch 100))"
    by (simp add: checkButtons_pressed(1) b)
  have l: "ledsA (loop (setupSketch 100) (pressBoth 5000)) =
      ledsA (checkButtons (pressBoth 5000) (setupSketch 100))"
    "ledsB (loop (setupSketch 100) (pressBoth 5000)) =
      ledsB (checkButtons (pressBoth 5000) (setupSketch 100))"
    by (simp_all add: loop_def c leds_stateMachine_emergency sysState_triggerEmergency)
  have s0: "sysState (setupSketch 100) = STATE_COUNTING"
    by (simp add: setupSketch_def resetCountingCycle_def)
  show ?thesis
    unfolding l checkButtons_split[symmetric]
    by (simp add: s0 b a c sysState_triggerEmergency emer_triggerEmergency
        leds_triggerEmergency setRoadLights_def)
qed

text \<open>
  Claim C4, amended. One emergency road is recorded at a time, and a request for the
  other road is not ignored: in a run of \<^verbatim>\<open>loop()\<close> that observes the signal of road A,
  so that the emergency of road A is active, and then the signal of road B, the second
  check records road B and a new start time, and the run ends with road B green and
  road A red. This holds in every state: the request handled last wins.
\<close>

theorem emergency_latest_request_wins:
  assumes "buttonA1 env \<and> buttonA2 env" and "buttonB1 env \<and> buttonB2 env"
  shows "sysState (checkButtonA env s) = STATE_EMERGENCY \<and>
    emerActive (checkButtonA env s) \<and> emerRoad (checkButtonA env s) = 1 \<and>
    emerStart (checkButtonA env s) = millisEmerA env \<and>
    ledsA (checkButtonA env s) = lamps PHASE_GREEN \<and>
    ledsB (checkButtonA env s) = lamps PHASE_RED \<and>
    checkButtons env s = checkButtonB env (checkButtonA env s) \<and>
    sysState (checkButtons env s) = STATE_EMERGENCY \<and>
    emerRoad (checkButtons env s) = 2 \<and>
    emerStart (checkButtons env s) = millisEmerB env \<and>
    ledsA (loop s env) = lamps PHASE_RED \<and> ledsB (loop s env) = lamps PHASE_GREEN"
proof -
  have a: "checkButtonA env s = triggerEmergency 1 (millisEmerA env) s"
    using assms(1) by (simp add: checkButtonA_def)
  have c: "checkButtons env s =
      triggerEmergency 2 (millisEmerB env) (triggerEmergency 1 (millisEmerA env) s)"
    using assms by (simp add: checkButtons_pressed(1))
  have first: "sysState (checkButtonA env s) = STATE_EMERGENCY \<and>
    emerActive (checkButtonA env s) \<and> emerRoad (checkButtonA env s) = 1 \<and>
    emerStart (checkButtonA env s) = millisEmerA env \<and>
    ledsA (checkButtonA env s) = lamps PHASE_GREEN \<and>
    ledsB (checkButtonA env s) = lamps PHASE_RED"
    by (simp add: a sysState_triggerEmergency emer_triggerEmergency leds_triggerEmergency lamps_eq)
  have second: "sysState (checkButtons env s) = STATE_EMERGENCY \<and>
    emerRoad (checkButtons env s) = 2 \<and>
    emerStart (checkButtons env s) = millisEmerB env"
    by (simp add: c sysState_triggerEmergency emer_triggerEmergency)
  have lights: "ledsA (loop s env) = lamps PHASE_RED \<and> ledsB (loop s env) = lamps PHASE_GREEN"
    by (simp add: loop_def c leds_stateMachine_emergency sysState_triggerEmergency
        leds_triggerEmergency lamps_eq)
  show ?thesis using first second lights checkButtons_split[of env s] by blast
qed

theorem emergency_latest_request_wins_witness:
  "buttonA1 (pressBoth 5000) \<and> buttonA2 (pressBoth 5000) \<and>
   buttonB1 (pressBoth 5000) \<and> buttonB2 (pressBoth 5000) \<and>
   sysState (setupSketch 100) = STATE_COUNTING \<and>
   emerRoad (checkButtonA (pressBoth 5000) (setupSketch 100)) = 1 \<and>
   emerStart (checkButtonA (pressBoth 5000) (setupSketch 100)) = 5010 \<and>
   emerRoad (checkButtons (pressBoth 5000) (setupSketch 100)) = 2 \<and>
   emerStart (checkButtons (pressBoth 5000) (setupSketch 100)) = 5020 \<and>
   ledsA (loop (setupSketch 100) (pressBoth 5000)) = lamps PHASE_RED \<and>
   ledsB (loop (setupSketch 100) (pressBoth 5000)) = lamps PHASE_GREEN"
proof -
  have b: "buttonA1 (pressBoth 5000) \<and> buttonA2 (pressBoth 5000)"
    "buttonB1 (pressBoth 5000) \<and> buttonB2 (pressBoth 5000)"
    by (simp_all add: pressBoth_def quietEnv_def)
  have m: "millisEmerA (pressBoth 5000) = 5010" "millisEmerB (pressBoth 5000) = 5020"
    by (simp_all add: pressBoth_def quietEnv_def)
  have s0: "sysState (setupSketch 100) = STATE_COUNTING"
    by (simp add: setupSketch_def resetCountingCycle_def)
  from emergency_latest_request_wins[OF b, of "setupSketch 100"]
  have r: "emerRoad (checkButtonA (pressBoth 5000) (setupSketch 100)) = 1"
    "emerStart (checkButtonA (pressBoth 5000) (setupSketch 100)) = millisEmerA (pressBoth 5000)"
    "emerRoad (checkButtons (pressBoth 5000) (setupSketch 100)) = 2"
    "emerStart (checkButtons (pressBoth 5000) (setupSketch 100)) = millisEmerB (pressBoth 5000)"
    "ledsA (loop (setupSketch 100) (pressBoth 5000)) = lamps PHASE_RED"
    "ledsB (loop (setupSketch 100) (pressBoth 5000)) = lamps PHASE_GREEN"
    by blast+
  show ?thesis using b s0 r by (simp add: m)
qed

lemma deadline_reached:
  "unat (start :: 32 word) + unat d \<le> unat now \<Longrightarrow> d \<le> now - start"
  by (simp add: word_le_nat_alt unat_sub_if_size)

lemma deadline_not_reached:
  "unat (start :: 32 word) \<le> unat now \<Longrightarrow> unat now < unat start + unat d \<Longrightarrow> \<not> d \<le> now - start"
  by (simp add: word_le_nat_alt unat_sub_if_size)

lemma stale_difference:
  assumes "0 < (t :: 32 word) - now" and "t - now \<le> 1000"
  shows "EMERGENCY_GREEN_MS \<le> now - t"
proof -
  define d where "d = t - now"
  have d: "0 < unat d" "unat d \<le> 1000"
    using assms by (simp_all add: d_def word_less_nat_alt word_le_nat_alt)
  have "now - t = 0 - d" by (simp add: d_def)
  then have "unat (now - t) = 2 ^ 32 - unat d"
    using d(1) unat_sub_if_size[of 0 d] by (simp add: word_size)
  then show ?thesis using d(2) by (simp add: word_le_nat_alt EMERGENCY_GREEN_MS_def)
qed

lemma sysState_stateMachine:
  assumes "sysState s \<noteq> STATE_EMERGENCY"
  shows "sysState (stateMachine env s) \<noteq> STATE_EMERGENCY"
proof (cases "sysState s")
  case STATE_COUNTING
  then show ?thesis
    by (simp add: stateMachine_def Let_def startExecutionPhase_def light_defs
        pollSensors_def case_prod_unfold)
next
  case STATE_EXECUTING_TIMES
  then show ?thesis
    by (simp add: stateMachine_def Let_def executeTimes_def light_defs resetCountingCycle_def)
next
  case STATE_EMERGENCY
  then show ?thesis using assms by simp
qed

lemma trigger_run_resets:
  assumes "EMERGENCY_GREEN_MS \<le> millisLoop env - t"
  shows "stateMachine env (triggerEmergency road t s) =
    resetCountingCycle (millisReset env)
      ((triggerEmergency road t s)\<lparr>emerActive := False, emerRoad := 0\<rparr>)"
  using assms by (simp add: stateMachine_emergency sysState_triggerEmergency emer_triggerEmergency)

text \<open>
  With a clock that advances, no run of \<^verbatim>\<open>loop()\<close> ends in mode Emergency, so no run
  starts in it: a run that observes a signal compares the start of the emergency, read
  after \<^verbatim>\<open>delay(10)\<close>, with the time read at its head, and resets at once.
\<close>

lemma loop_leaves_emergency:
  assumes "clockAdvances env" and "sysState s \<noteq> STATE_EMERGENCY"
  shows "sysState (loop s env) \<noteq> STATE_EMERGENCY"
proof -
  have a: "EMERGENCY_GREEN_MS \<le> millisLoop env - millisEmerA env"
    using assms(1) by (intro stale_difference) (simp_all add: clockAdvances_def)
  have b: "EMERGENCY_GREEN_MS \<le> millisLoop env - millisEmerB env"
    using assms(1) by (intro stale_difference) (simp_all add: clockAdvances_def)
  consider "buttonB1 env \<and> buttonB2 env"
    | "buttonA1 env \<and> buttonA2 env" "\<not> (buttonB1 env \<and> buttonB2 env)"
    | "\<not> (buttonA1 env \<and> buttonA2 env)" "\<not> (buttonB1 env \<and> buttonB2 env)"
    by blast
  then show ?thesis
  proof cases
    case 1
    show ?thesis
      by (simp add: loop_def checkButtons_pressed(1)[OF 1] trigger_run_resets[OF b]
          resetCountingCycle_def)
  next
    case 2
    show ?thesis
      by (simp add: loop_def checkButtons_pressed(2)[OF 2] trigger_run_resets[OF a]
          resetCountingCycle_def)
  next
    case 3
    show ?thesis
      using sysState_stateMachine[OF assms(2)]
      by (simp add: loop_def checkButtons_pressed(3)[OF 3])
  qed
qed

lemma runLoop_never_emergency:
  assumes "list_all clockAdvances envs" and "sysState s \<noteq> STATE_EMERGENCY"
  shows "sysState (runLoop s envs) \<noteq> STATE_EMERGENCY"
  using assms
proof (induction envs arbitrary: s)
  case Nil
  then show ?case by simp
next
  case (Cons env envs)
  have "sysState (loop s env) \<noteq> STATE_EMERGENCY"
    using Cons.prems by (intro loop_leaves_emergency) simp_all
  then show ?case using Cons.prems(1) Cons.IH[of "loop s env"] by simp
qed

lemma startup_never_emergency:
  "list_all clockAdvances envs \<Longrightarrow> sysState (runLoop (setupSketch t) envs) \<noteq> STATE_EMERGENCY"
  by (rule runLoop_never_emergency) (simp_all add: setupSketch_def resetCountingCycle_def)

lemma sample_distances:
  "measureDistanceCM 580 = 10" "measureDistanceCM 1160 = 20" "measureDistanceCM 5800 = 100"
  "measureDistanceCM 0 = - 1"
  by (simp_all add: measureDistanceCM_def signed_divide_int_def)

lemma sample_presence:
  "isPresent 10" "isPresent 20" "\<not> isPresent 100" "\<not> isPresent (- 1)"
  by (simp_all add: isPresent_def DIST_THRESHOLD_CM_def)

lemma oneCounted_fields:
  "sysState oneCounted = STATE_COUNTING" "countA oneCounted = 1" "countB oneCounted = 0"
  by (simp_all add: oneCounted_def vehicleOnA_def setupSketch_def initGlobals_def quietEnv_def
      loop_def checkButtons_def stateMachine_def pollSensors_def updateSensor_def
      sample_distances sample_presence resetCountingCycle_def light_defs Let_def
      SensorState_init_def SENSOR_POLL_MS_def CYCLE_TOTAL_MS_def PRESENCE_DEBOUNCE_MS_def
      ABSENCE_DEBOUNCE_MS_def)

text \<open>
  Claim C5 at a concrete run. One vehicle has been counted on road A when a run of
  \<^verbatim>\<open>loop()\<close> that starts at time 5000 sees button A pressed. The start of the emergency
  is 5010, so the deadline is 15010; the run itself, whose time is 5000, clears the
  emergency, sets the counters to zero and enters mode Counting. The reset is the one
  the claim describes, but it comes ten seconds before the deadline.
\<close>

theorem emergency_cleared_before_deadline:
  "sysState oneCounted = STATE_COUNTING \<and> countA oneCounted = 1 \<and>
   buttonA1 (pressA 5000) \<and> buttonA2 (pressA 5000) \<and> millisLoop (pressA 5000) = 5000 \<and>
   sysState (checkButtons (pressA 5000) oneCounted) = STATE_EMERGENCY \<and>
   emerStart (checkButtons (pressA 5000) oneCounted) = 5010 \<and>
   unat (millisLoop (pressA 5000)) <
     unat (emerStart (checkButtons (pressA 5000) oneCounted)) + unat EMERGENCY_GREEN_MS \<and>
   sysState (loop oneCounted (pressA 5000)) = STATE_COUNTING \<and>
   \<not> emerActive (loop oneCounted (pressA 5000)) \<and>
   emerRoad (loop oneCounted (pressA 5000)) = 0 \<and>
   countA (loop oneCounted (pressA 5000)) = 0 \<and>
   countB (loop oneCounted (pressA 5000)) = 0 \<and>
   sA (loop oneCounted (pressA 5000)) = SensorState_init \<and>
   sB (loop oneCounted (pressA 5000)) = SensorState_init"
proof -
  have e: "buttonA1 (pressA 5000) \<and> buttonA2 (pressA 5000)"
    "\<not> (buttonB1 (pressA 5000) \<and> buttonB2 (pressA 5000))"
    "millisLoop (pressA 5000) = 5000" "millisEmerA (pressA 5000) = 5010"
    by (simp_all add: pressA_def quietEnv_def)
  have c: "checkButtons (pressA 5000) oneCounted = triggerEmergency 1 5010 oneCounted"
    by (simp add: checkButtons_pressed(2)[OF e(1,2)] e)
  have "EMERGENCY_GREEN_MS \<le> millisLoop (pressA 5000) - 5010"
    by (simp add: e EMERGENCY_GREEN_MS_def)
  then have l: "loop oneCounted (pressA 5000) =
      resetCountingCycle (millisReset (pressA 5000))
        ((triggerEmergency 1 5010 oneCounted)\<lparr>emerActive := False, emerRoad := 0\<rparr>)"
    by (simp add: loop_def c trigger_run_resets)
  show ?thesis
    by (simp add: oneCounted_fields e c l sysState_triggerEmergency emer_triggerEmergency
        resetCountingCycle_def EMERGENCY_GREEN_MS_def)
qed

section \<open>The order of the roads\<close>


lemma startExecutionPhase_fields:
  "sysState (startExecutionPhase t s) = STATE_EXECUTING_TIMES"
  "execPhaseStart (startExecutionPhase t s) = t"
  "countA (startExecutionPhase t s) = countA s"
  "countB (startExecutionPhase t s) = countB s"
  "executingAfirst (startExecutionPhase t s) = (countB s \<le> countA s)"
  "ledsA (startExecutionPhase t s) =
     setRoadLights (if countB s \<le> countA s then PHASE_GREEN else PHASE_RED)"
  "ledsB (startExecutionPhase t s) =
     setRoadLights (if countB s \<le> countA s then PHASE_RED else PHASE_GREEN)"
  by (simp_all add: startExecutionPhase_def Let_def light_defs)

lemma stateMachine_counting:
  "sysState s = STATE_COUNTING \<Longrightarrow>
   stateMachine env s =
     (let s1 = (if SENSOR_POLL_MS \<le> millisLoop env - lastSensorPoll s
                then pollSensors env (s\<lparr>lastSensorPoll := millisLoop env\<rparr>) else s)
      in if CYCLE_TOTAL_MS \<le> millisLoop env - cycleStartTime s1
         then startExecutionPhase (millisExec env) s1 else s1)"
  by (simp add: stateMachine_def Let_def)



section \<open>Sensor timeouts\<close>

lemma startExecutionPhase_sensors:
  "sA (startExecutionPhase t s) = sA s" "sB (startExecutionPhase t s) = sB s"
  by (simp_all add: startExecutionPhase_def Let_def light_defs)

lemma poll_gated:
  assumes "sysState s = STATE_COUNTING"
    and "\<not> (buttonA1 env \<and> buttonA2 env)" and "\<not> (buttonB1 env \<and> buttonB2 env)"
    and "millisLoop env - lastSensorPoll s < SENSOR_POLL_MS"
  shows "sA (loop s env) = sA s \<and> sB (loop s env) = sB s \<and>
    countA (loop s env) = countA s \<and> countB (loop s env) = countB s"
proof -
  have "\<not> SENSOR_POLL_MS \<le> millisLoop env - lastSensorPoll s"
    using assms(4) by simp
  then show ?thesis using assms(1-3)
    by (simp add: loop_def checkButtons_pressed(3) stateMachine_counting Let_def
        startExecutionPhase_fields startExecutionPhase_sensors)
qed

text \<open>
  Claim C9. A timeout of the echo (\<^verbatim>\<open>pulseIn\<close> returns 0) gives the distance \<open>-1\<close>, for
  which the presence is false; \<^verbatim>\<open>updateSensor\<close> then does what it does for any absent
  reading, and it always returns. The pulse is read once per poll, and a run of
  \<^verbatim>\<open>loop()\<close> that comes less than \<^verbatim>\<open>SENSOR_POLL_MS\<close> after the last poll reads no
  sensor: sensor states and counts stay as they are.
\<close>

theorem sensor_timeout_absent:
  "measureDistanceCM 0 = - 1 \<and> \<not> isPresent (measureDistanceCM 0) \<and>
   updateSensor s c 0 now =
     (if present s \<and> ABSENCE_DEBOUNCE_MS \<le> now - lastChange s
      then (s\<lparr>present := False, lastChange := now, waitingForAbsence := False\<rparr>,
            if waitingForAbsence s then c + 1 else c)
      else (s, c)) \<and>
   (sysState g = STATE_COUNTING \<and> \<not> (buttonA1 env \<and> buttonA2 env) \<and>
    \<not> (buttonB1 env \<and> buttonB2 env) \<and> millisLoop env - lastSensorPoll g < SENSOR_POLL_MS \<longrightarrow>
    sA (loop g env) = sA g \<and> sB (loop g env) = sB g \<and>
    countA (loop g env) = countA g \<and> countB (loop g env) = countB g)"
proof -
  have m: "measureDistanceCM 0 = - 1" by (simp add: measureDistanceCM_def)
  have p: "\<not> isPresent (- 1)" by (simp add: isPresent_def)
  have u: "updateSensor s c 0 now =
     (if present s \<and> ABSENCE_DEBOUNCE_MS \<le> now - lastChange s
      then (s\<lparr>present := False, lastChange := now, waitingForAbsence := False\<rparr>,
            if waitingForAbsence s then c + 1 else c)
      else (s, c))"
    by (cases "waitingForAbsence s") (auto simp add: m p updateSensor_def Let_def)
  show ?thesis using m p u poll_gated[of g env] by simp
qed

theorem sensor_timeout_absent_witness:
  "sysState polledExample = STATE_COUNTING \<and>
   \<not> (buttonA1 (quietEnv 1030) \<and> buttonA2 (quietEnv 1030)) \<and>
   \<not> (buttonB1 (quietEnv 1030) \<and> buttonB2 (quietEnv 1030)) \<and>
   millisLoop (quietEnv 1030) - lastSensorPoll polledExample < SENSOR_POLL_MS \<and>
   sA (loop polledExample (quietEnv 1030)) = sA polledExample \<and>
   sB (loop polledExample (quietEnv 1030)) = sB polledExample \<and>
   updateSensor SensorState_init 0 0 1000 = (SensorState_init, 0)"
proof -
  have h: "sysState polledExample = STATE_COUNTING \<and>
     \<not> (buttonA1 (quietEnv 1030) \<and> buttonA2 (quietEnv 1030)) \<and>
     \<not> (buttonB1 (quietEnv 1030) \<and> buttonB2 (quietEnv 1030)) \<and>
     millisLoop (quietEnv 1030) - lastSensorPoll polledExample < SENSOR_POLL_MS"
    by (simp add: polledExample_def setupSketch_def resetCountingCycle_def quietEnv_def
        SENSOR_POLL_MS_def)
  have i: "\<not> present SensorState_init" by (simp add: SensorState_init_def)
  show ?thesis
    using sensor_timeout_absent[of SensorState_init 0 1000 polledExample "quietEnv 1030"] h i
    by simp
qed

section \<open>The length of an emergency\<close>

text \<open>
  Claim C10 at a concrete run: from mode Counting, a run of \<^verbatim>\<open>loop()\<close> that starts at
  time 5000 and sees button A pressed records the start 5010 of the emergency, read
  after \<^verbatim>\<open>delay(10)\<close>, and then compares it with the time 5000 read at the head of the
  run. The unsigned difference wraps around, the emergency counts as expired, and the
  run ends in mode Counting with road A green.
\<close>

theorem emergency_ends_at_once:
  "sysState (setupSketch 100) = STATE_COUNTING \<and>
   buttonA1 (pressA 5000) \<and> buttonA2 (pressA 5000) \<and>
   millisLoop (pressA 5000) = 5000 \<and> millisEmerA (pressA 5000) = 5010 \<and>
   sysState (checkButtons (pressA 5000) (setupSketch 100)) = STATE_EMERGENCY \<and>
   emerStart (checkButtons (pressA 5000) (setupSketch 100)) = 5010 \<and>
   sysState (loop (setupSketch 100) (pressA 5000)) = STATE_COUNTING \<and>
   \<not> emerActive (loop (setupSketch 100) (pressA 5000)) \<and>
   emerRoad (loop (setupSketch 100) (pressA 5000)) = 0 \<and>
   ledsA (loop (setupSketch 100) (pressA 5000)) = lamps PHASE_GREEN \<and>
   ledsB (loop (setupSketch 100) (pressA 5000)) = lamps PHASE_RED"
  by (simp add: lamps_eq example_defs loop_def checkButtons_def stateMachine_def triggerEmergency_def
      resetCountingCycle_def light_defs Let_def EMERGENCY_GREEN_MS_def)

text \<open>
  The same holds whenever the clock has advanced between the head of the run and the
  call of \<^verbatim>\<open>triggerEmergency\<close>.
\<close>

lemma stale_clock_ends_emergency:
  assumes "buttonA1 env \<and> buttonA2 env" "\<not> (buttonB1 env \<and> buttonB2 env)"
    and "unat (millisLoop env) < unat (millisEmerA env)"
    and "unat (millisEmerA env) \<le> unat (millisLoop env) + 1000"
  shows "sysState (loop s env) = STATE_COUNTING \<and> \<not> emerActive (loop s env)"
proof -
  have "unat (millisLoop env - millisEmerA env) =
      unat (millisLoop env) + 2 ^ 32 - unat (millisEmerA env)"
    using assms(3) by (simp add: unat_sub_if_size word_size)
  then have "EMERGENCY_GREEN_MS \<le> millisLoop env - millisEmerA env"
    using assms(4) unsigned_less[of "millisEmerA env", where 'a = nat]
    by (simp add: word_le_nat_alt EMERGENCY_GREEN_MS_def)
  then show ?thesis
    by (simp add: loop_def checkButtons_pressed(2)[OF assms(1,2)] stateMachine_emergency
        sysState_triggerEmergency emer_triggerEmergency resetCountingCycle_def)
qed

section \<open>Counting vehicles\<close>

lemma updateSensor_state_counter:
  "fst (updateSensor s c pulse now) = fst (updateSensor s 0 pulse now)"
  by (simp add: updateSensor_def Let_def)

lemma updateSensor_same:
  "isPresent (measureDistanceCM pulse) = present s \<Longrightarrow> updateSensor s c pulse now = (s, c)"
  by (simp add: updateSensor_def Let_def)

lemma updateSensor_arrive:
  assumes "\<not> present s" "isPresent (measureDistanceCM pulse)"
  shows "updateSensor s c pulse now =
    (if PRESENCE_DEBOUNCE_MS \<le> now - lastChange s
     then (s\<lparr>present := True, lastChange := now, waitingForAbsence := True\<rparr>, c) else (s, c))"
  using assms by (simp add: updateSensor_def Let_def)

lemma updateSensor_leave:
  assumes "present s" "\<not> isPresent (measureDistanceCM pulse)"
  shows "updateSensor s c pulse now =
    (if ABSENCE_DEBOUNCE_MS \<le> now - lastChange s
     then (s\<lparr>present := False, lastChange := now, waitingForAbsence := False\<rparr>,
           if waitingForAbsence s then c + 1 else c)
     else (s, c))"
  using assms by (cases "waitingForAbsence s") (simp_all add: updateSensor_def Let_def)

lemma steady_run:
  assumes "\<forall>r\<in>set rs. isPresent (measureDistanceCM (fst r)) = present s"
  shows "pollSequence (s, c) rs = (s, c) \<and> passEvents s rs = 0"
  using assms
proof (induction rs)
  case Nil
  then show ?case by simp
next
  case (Cons r rs)
  obtain pulse now where r: "r = (pulse, now)" by (cases r)
  have u: "\<And>c. updateSensor s c pulse now = (s, c)"
    using Cons.prems r by (intro updateSensor_same) simp
  show ?case using Cons r by (simp add: u passCounted_def)
qed

lemma arrival_run:
  assumes "\<not> present s" "rs \<noteq> []"
    and "\<forall>r\<in>set rs. isPresent (measureDistanceCM (fst r))"
    and "\<forall>r\<in>set rs. unat (lastChange s) \<le> unat (snd r)"
    and "unat (lastChange s) + 80 \<le> unat (snd (last rs))"
  shows "\<exists>t\<in>snd ` set rs.
    pollSequence (s, c) rs = (s\<lparr>present := True, lastChange := t, waitingForAbsence := True\<rparr>, c) \<and>
    passEvents s rs = 0"
  using assms
proof (induction rs)
  case Nil
  then show ?case by simp
next
  case (Cons r rs)
  obtain pulse now where r: "r = (pulse, now)" by (cases r)
  have p: "isPresent (measureDistanceCM pulse)" using Cons.prems(3) r by simp
  have le: "unat (lastChange s) \<le> unat now" using Cons.prems(4) r by simp
  note u = updateSensor_arrive[OF Cons.prems(1) p, of _ now]
  show ?case
  proof (cases "unat (lastChange s) + 80 \<le> unat now")
    case True
    then have acc: "PRESENCE_DEBOUNCE_MS \<le> now - lastChange s"
      by (intro deadline_reached) (simp add: PRESENCE_DEBOUNCE_MS_def)
    let ?s = "s\<lparr>present := True, lastChange := now, waitingForAbsence := True\<rparr>"
    have "\<forall>r\<in>set rs. isPresent (measureDistanceCM (fst r)) = present ?s"
      using Cons.prems(3) by simp
    from steady_run[OF this] show ?thesis
      using r acc by (simp add: u passCounted_def)
  next
    case False
    then have rej: "\<not> PRESENCE_DEBOUNCE_MS \<le> now - lastChange s"
      using le by (intro deadline_not_reached) (simp_all add: PRESENCE_DEBOUNCE_MS_def)
    have ne: "rs \<noteq> []" using False Cons.prems(5) r by auto
    then have "\<exists>t\<in>snd ` set rs.
      pollSequence (s, c) rs = (s\<lparr>present := True, lastChange := t, waitingForAbsence := True\<rparr>, c) \<and>
      passEvents s rs = 0"
      using Cons.prems by (intro Cons.IH) simp_all
    then show ?thesis using r rej by (simp add: u passCounted_def)
  qed
qed

lemma departure_run:
  assumes "present s" "waitingForAbsence s" "rs \<noteq> []"
    and "\<forall>r\<in>set rs. \<not> isPresent (measureDistanceCM (fst r))"
    and "\<forall>r\<in>set rs. unat (lastChange s) \<le> unat (snd r)"
    and "unat (lastChange s) + 120 \<le> unat (snd (last rs))"
  shows "\<exists>t\<in>snd ` set rs.
    pollSequence (s, c) rs =
      (s\<lparr>present := False, lastChange := t, waitingForAbsence := False\<rparr>, c + 1) \<and>
    passEvents s rs = 1"
  using assms
proof (induction rs)
  case Nil
  then show ?case by simp
next
  case (Cons r rs)
  obtain pulse now where r: "r = (pulse, now)" by (cases r)
  have p: "\<not> isPresent (measureDistanceCM pulse)" using Cons.prems(4) r by simp
  have le: "unat (lastChange s) \<le> unat now" using Cons.prems(5) r by simp
  note u = updateSensor_leave[OF Cons.prems(1) p, of _ now]
  show ?case
  proof (cases "unat (lastChange s) + 120 \<le> unat now")
    case True
    then have acc: "ABSENCE_DEBOUNCE_MS \<le> now - lastChange s"
      by (intro deadline_reached) (simp add: ABSENCE_DEBOUNCE_MS_def)
    let ?s = "s\<lparr>present := False, lastChange := now, waitingForAbsence := False\<rparr>"
    have "\<forall>r\<in>set rs. isPresent (measureDistanceCM (fst r)) = present ?s"
      using Cons.prems(4) by simp
    from steady_run[OF this] show ?thesis
      using r acc Cons.prems(2) by (simp add: u passCounted_def)
  next
    case False
    then have rej: "\<not> ABSENCE_DEBOUNCE_MS \<le> now - lastChange s"
      using le by (intro deadline_not_reached) (simp_all add: ABSENCE_DEBOUNCE_MS_def)
    have ne: "rs \<noteq> []" using False Cons.prems(6) r by auto
    then have "\<exists>t\<in>snd ` set rs.
      pollSequence (s, c) rs =
        (s\<lparr>present := False, lastChange := t, waitingForAbsence := False\<rparr>, c + 1) \<and>
      passEvents s rs = 1"
      using Cons.prems by (intro Cons.IH) simp_all
    then show ?thesis using r rej by (simp add: u passCounted_def)
  qed
qed

lemma pollSequence_append:
  "pollSequence sc (xs @ ys) = pollSequence (pollSequence sc xs) ys"
proof (induction xs arbitrary: sc)
  case Nil
  then show ?case by simp
next
  case (Cons r xs)
  then show ?case by (cases sc; cases r) simp
qed

lemma pollSequence_state_counter:
  "fst (pollSequence (s, c) rs) = fst (pollSequence (s, 0) rs)"
proof (induction rs arbitrary: s c)
  case Nil
  then show ?case by simp
next
  case (Cons r rs)
  obtain pulse now where r: "r = (pulse, now)" by (cases r)
  obtain s1 c1 where u1: "updateSensor s c pulse now = (s1, c1)" by (cases "updateSensor s c pulse now")
  obtain s2 c2 where u2: "updateSensor s 0 pulse now = (s2, c2)" by (cases "updateSensor s 0 pulse now")
  have "s1 = s2" using updateSensor_state_counter[of s c pulse now] u1 u2 by simp
  then show ?case using r u1 u2 Cons.IH[of s2 c1] Cons.IH[of s2 c2] by simp
qed

lemma passEvents_append:
  "passEvents s (xs @ ys) = passEvents s xs + passEvents (fst (pollSequence (s, 0) xs)) ys"
proof (induction xs arbitrary: s)
  case Nil
  then show ?case by simp
next
  case (Cons r xs)
  obtain pulse now where r: "r = (pulse, now)" by (cases r)
  obtain s2 c2 where u2: "updateSensor s 0 pulse now = (s2, c2)" by (cases "updateSensor s 0 pulse now")
  show ?case using r u2 Cons.IH[of s2] pollSequence_state_counter[of s2 c2 xs] by simp
qed

text \<open>
  Claim C8. A presence episode is counted exactly once. Take a sensor that is absent, a
  run of present readings and then a run of absent readings, the clock not going
  backwards, the present run lasting at least the presence debounce and the absent run
  at least the absence debounce. However many readings the runs hold, exactly one poll
  executes \<^verbatim>\<open>counter++\<close>, the counter ends one higher, and the sensor ends absent
  and not waiting. The count happens at the accepted change from present to absent:
  that poll, with \<^verbatim>\<open>waitingForAbsence\<close> set, adds one to the counter and clears
  \<^verbatim>\<open>waitingForAbsence\<close>.
\<close>

theorem one_pass_per_episode:
  assumes "\<not> present s" and "ons \<noteq> []" and "offs \<noteq> []"
    and "\<forall>r\<in>set ons. isPresent (measureDistanceCM (fst r))"
    and "\<forall>r\<in>set offs. \<not> isPresent (measureDistanceCM (fst r))"
    and "sorted (map (\<lambda>r. unat (snd r)) (ons @ offs))"
    and "unat (lastChange s) \<le> unat (snd (hd ons))"
    and "unat (snd (hd ons)) + unat PRESENCE_DEBOUNCE_MS \<le> unat (snd (last ons))"
    and "unat (snd (hd offs)) + unat ABSENCE_DEBOUNCE_MS \<le> unat (snd (last offs))"
  shows "passEvents s (ons @ offs) = 1 \<and>
    snd (pollSequence (s, c) (ons @ offs)) = c + 1 \<and>
    \<not> present (fst (pollSequence (s, c) (ons @ offs))) \<and>
    \<not> waitingForAbsence (fst (pollSequence (s, c) (ons @ offs))) \<and>
    (present s' \<and> waitingForAbsence s' \<and> \<not> isPresent (measureDistanceCM pulse) \<and>
     ABSENCE_DEBOUNCE_MS \<le> now - lastChange s' \<longrightarrow>
     updateSensor s' c' pulse now =
       (s'\<lparr>present := False, lastChange := now, waitingForAbsence := False\<rparr>, c' + 1))"
proof -
  have so: "sorted (map (\<lambda>r. unat (snd r)) ons)" "sorted (map (\<lambda>r. unat (snd r)) offs)"
    and cross: "\<forall>x\<in>set ons. \<forall>y\<in>set offs. unat (snd x) \<le> unat (snd y)"
    using assms(6) by (auto simp add: sorted_append)
  have hd_ons: "\<forall>r\<in>set ons. unat (snd (hd ons)) \<le> unat (snd r)"
    using so(1) assms(2) by (cases ons) auto
  have hd_offs: "\<forall>r\<in>set offs. unat (snd (hd offs)) \<le> unat (snd r)"
    using so(2) assms(3) by (cases offs) auto
  have a4: "\<forall>r\<in>set ons. unat (lastChange s) \<le> unat (snd r)"
    using hd_ons assms(7) by fastforce
  have a5: "unat (lastChange s) + 80 \<le> unat (snd (last ons))"
    using assms(7,8) by (simp add: PRESENCE_DEBOUNCE_MS_def)
  obtain t where t: "t \<in> snd ` set ons"
    and on: "\<And>c. pollSequence (s, c) ons =
      (s\<lparr>present := True, lastChange := t, waitingForAbsence := True\<rparr>, c)"
    and ev_on: "passEvents s ons = 0"
  proof -
    from arrival_run[OF assms(1,2,4) a4 a5, of c]
    obtain t where t: "t \<in> snd ` set ons"
      "pollSequence (s, c) ons = (s\<lparr>present := True, lastChange := t, waitingForAbsence := True\<rparr>, c)"
      "passEvents s ons = 0" by blast
    have "pollSequence (s, d) ons =
        (s\<lparr>present := True, lastChange := t, waitingForAbsence := True\<rparr>, d)" for d
    proof -
      from arrival_run[OF assms(1,2,4) a4 a5, of d]
      obtain t' where t': "pollSequence (s, d) ons =
        (s\<lparr>present := True, lastChange := t', waitingForAbsence := True\<rparr>, d)" by blast
      have "fst (pollSequence (s, d) ons) = fst (pollSequence (s, c) ons)"
        using pollSequence_state_counter[of s d ons] pollSequence_state_counter[of s c ons] by simp
      then show ?thesis using t' t(2) by simp
    qed
    then show ?thesis using that t by blast
  qed
  let ?s1 = "s\<lparr>present := True, lastChange := t, waitingForAbsence := True\<rparr>"
  have b5: "\<forall>r\<in>set offs. unat (lastChange ?s1) \<le> unat (snd r)"
    using t cross by auto
  have "unat t \<le> unat (snd (hd offs))"
    using t cross assms(3) by (cases offs) auto
  then have b6: "unat (lastChange ?s1) + 120 \<le> unat (snd (last offs))"
    using assms(9) by (simp add: ABSENCE_DEBOUNCE_MS_def)
  have off: "\<exists>u\<in>snd ` set offs.
      pollSequence (?s1, d) offs =
        (?s1\<lparr>present := False, lastChange := u, waitingForAbsence := False\<rparr>, d + 1) \<and>
      passEvents ?s1 offs = 1" for d
    using assms(3,5) b5 b6 by (intro departure_run) simp_all
  have ev: "passEvents s (ons @ offs) = 1"
    using off[of 0] by (auto simp add: passEvents_append ev_on on)
  have run: "snd (pollSequence (s, c) (ons @ offs)) = c + 1 \<and>
    \<not> present (fst (pollSequence (s, c) (ons @ offs))) \<and>
    \<not> waitingForAbsence (fst (pollSequence (s, c) (ons @ offs)))"
    using off[of c] by (auto simp add: pollSequence_append on)
  have step: "present s' \<and> waitingForAbsence s' \<and> \<not> isPresent (measureDistanceCM pulse) \<and>
     ABSENCE_DEBOUNCE_MS \<le> now - lastChange s' \<longrightarrow>
     updateSensor s' c' pulse now =
       (s'\<lparr>present := False, lastChange := now, waitingForAbsence := False\<rparr>, c' + 1)"
    by (simp add: updateSensor_leave)
  show ?thesis using ev run step by blast
qed

theorem one_pass_per_episode_witness:
  "\<not> present idleSensor \<and> onReadings \<noteq> [] \<and> offReadings \<noteq> [] \<and>
   list_all (\<lambda>r. isPresent (measureDistanceCM (fst r))) onReadings \<and>
   list_all (\<lambda>r. \<not> isPresent (measureDistanceCM (fst r))) offReadings \<and>
   sorted (map (\<lambda>r. unat (snd r)) (onReadings @ offReadings)) \<and>
   unat (lastChange idleSensor) \<le> unat (snd (hd onReadings)) \<and>
   unat (snd (hd onReadings)) + unat PRESENCE_DEBOUNCE_MS \<le> unat (snd (last onReadings)) \<and>
   unat (snd (hd offReadings)) + unat ABSENCE_DEBOUNCE_MS \<le> unat (snd (last offReadings)) \<and>
   present busySensor \<and> waitingForAbsence busySensor \<and> \<not> isPresent (measureDistanceCM 0) \<and>
   ABSENCE_DEBOUNCE_MS \<le> 1180 - lastChange busySensor \<and>
   passEvents idleSensor (onReadings @ offReadings) = 1 \<and>
   snd (pollSequence (idleSensor, 41) (onReadings @ offReadings)) = 42 \<and>
   updateSensor busySensor 41 0 1180 =
     (\<lparr>present = False, lastChange = 1180, waitingForAbsence = False\<rparr>, 42)"
proof -
  have h: "\<not> present idleSensor" "onReadings \<noteq> []" "offReadings \<noteq> []"
    "\<forall>r\<in>set onReadings. isPresent (measureDistanceCM (fst r))"
    "\<forall>r\<in>set offReadings. \<not> isPresent (measureDistanceCM (fst r))"
    "sorted (map (\<lambda>r. unat (snd r)) (onReadings @ offReadings))"
    "unat (lastChange idleSensor) \<le> unat (snd (hd onReadings))"
    "unat (snd (hd onReadings)) + unat PRESENCE_DEBOUNCE_MS \<le> unat (snd (last onReadings))"
    "unat (snd (hd offReadings)) + unat ABSENCE_DEBOUNCE_MS \<le> unat (snd (last offReadings))"
    by (simp_all add: idleSensor_def SensorState_init_def onReadings_def offReadings_def
        sample_distances sample_presence PRESENCE_DEBOUNCE_MS_def ABSENCE_DEBOUNCE_MS_def)
  have g: "present busySensor" "waitingForAbsence busySensor" "\<not> isPresent (measureDistanceCM 0)"
    "ABSENCE_DEBOUNCE_MS \<le> 1180 - lastChange busySensor"
    by (simp_all add: busySensor_def sample_distances sample_presence ABSENCE_DEBOUNCE_MS_def)
  from one_pass_per_episode[OF h, of 41 busySensor 0 1180 41] show ?thesis
    using h g by (simp add: busySensor_def list_all_iff)
qed

section \<open>The execution window\<close>

lemma stateMachine_executing:
  "sysState s = STATE_EXECUTING_TIMES \<Longrightarrow>
   stateMachine env s = executeTimes (millisLoop env) (millisReset env) s"
  by (simp add: stateMachine_def)

lemma unat_plus_3000:
  "unat (a :: 32 word) + 3000 < 2 ^ 32 \<Longrightarrow> unat (a + 3000) = unat a + 3000"
  using unat_add_lem[of a 3000] by simp

lemma unat_plus_word:
  "unat (a :: 32 word) + unat b < 2 ^ 32 \<Longrightarrow> unat (a + b) = unat a + unat b"
  using unat_add_lem[of a b] by simp

lemma segment_bounds:
  assumes "unat (a :: 32 word) + unat (b :: 32 word) + 6000 < 2 ^ 32"
  shows "unat (a + 3000) = unat a + 3000"
    "unat (a + 3000 + b) = unat a + 3000 + unat b"
    "unat (a + 3000 + b + 3000) = unat a + 3000 + unat b + 3000"
    "unat (6000 + (a + b)) = unat a + 3000 + unat b + 3000"
proof -
  show 1: "unat (a + 3000) = unat a + 3000"
    using assms by (intro unat_plus_3000) simp
  show 2: "unat (a + 3000 + b) = unat a + 3000 + unat b"
    using assms 1 unat_plus_word[of "a + 3000" b] by simp
  show 3: "unat (a + 3000 + b + 3000) = unat a + 3000 + unat b + 3000"
    using assms 2 unat_plus_3000[of "a + 3000 + b"] by simp
  have "6000 + (a + b) = a + 3000 + b + 3000" by simp
  then show "unat (6000 + (a + b)) = unat a + 3000 + unat b + 3000"
    using 3 by simp
qed

lemma executeTimes_spec:
  assumes "unat (greenDurationA s) + unat (greenDurationB s) + 6000 < 2 ^ 32"
    and "unat (now - execPhaseStart s) < unat (if executingAfirst s then greenDurationA s else greenDurationB s)
      \<longrightarrow> ledsA s = setRoadLights (if executingAfirst s then PHASE_GREEN else PHASE_RED) \<and>
          ledsB s = setRoadLights (if executingAfirst s then PHASE_RED else PHASE_GREEN)"
  shows "executeTimes now t s =
    (case spec_phaseAt (executingAfirst s) (unat (greenDurationA s)) (unat (greenDurationB s))
            (unat (now - execPhaseStart s)) of
       Some (pa, pb) \<Rightarrow> s\<lparr>ledsA := setRoadLights pa, ledsB := setRoadLights pb\<rparr>
     | None \<Rightarrow> resetCountingCycle t s)"
proof (cases "executingAfirst s")
  case True
  note b = segment_bounds[OF assms(1)]
  show ?thesis using True assms(2)
    by (simp add: executeTimes_def spec_phaseAt_def Let_def word_less_nat_alt b light_defs)
next
  case False
  have "unat (greenDurationB s) + unat (greenDurationA s) + 6000 < 2 ^ 32"
    using assms(1) by simp
  note b = segment_bounds[OF this]
  show ?thesis using False assms(2)
    by (simp add: executeTimes_def spec_phaseAt_def Let_def word_less_nat_alt b light_defs)
qed

lemma loop_executing:
  assumes "sysState s = STATE_EXECUTING_TIMES"
    and "\<not> (buttonA1 env \<and> buttonA2 env)" and "\<not> (buttonB1 env \<and> buttonB2 env)"
    and "unat (greenDurationA s) + unat (greenDurationB s) + 6000 < 2 ^ 32"
    and "unat (millisLoop env - execPhaseStart s) <
           unat (if executingAfirst s then greenDurationA s else greenDurationB s)
      \<longrightarrow> ledsA s = setRoadLights (if executingAfirst s then PHASE_GREEN else PHASE_RED) \<and>
          ledsB s = setRoadLights (if executingAfirst s then PHASE_RED else PHASE_GREEN)"
  shows "loop s env =
    (case spec_phaseAt (executingAfirst s) (unat (greenDurationA s)) (unat (greenDurationB s))
            (unat (millisLoop env - execPhaseStart s)) of
       Some (pa, pb) \<Rightarrow> s\<lparr>ledsA := setRoadLights pa, ledsB := setRoadLights pb\<rparr>
     | None \<Rightarrow> resetCountingCycle (millisReset env) s)"
  using assms(1) executeTimes_spec[OF assms(4,5)]
  by (simp add: loop_def checkButtons_pressed(3)[OF assms(2,3)] stateMachine_executing)

lemma spec_phaseAt_Some:
  "elapsed < durationA + durationB + 6000 \<Longrightarrow>
   \<exists>pa pb. spec_phaseAt aFirst durationA durationB elapsed = Some (pa, pb)"
  by (simp add: spec_phaseAt_def Let_def)

lemma spec_phaseAt_first:
  "elapsed < (if aFirst then durationA else durationB) \<Longrightarrow>
   spec_phaseAt aFirst durationA durationB elapsed =
     Some (if aFirst then PHASE_GREEN else PHASE_RED, if aFirst then PHASE_RED else PHASE_GREEN)"
  by (simp add: spec_phaseAt_def Let_def)

lemma applyPhases_fields:
  "sysState (applyPhases pp s) = sysState s"
  "greenDurationA (applyPhases pp s) = greenDurationA s"
  "greenDurationB (applyPhases pp s) = greenDurationB s"
  "executingAfirst (applyPhases pp s) = executingAfirst s"
  "execPhaseStart (applyPhases pp s) = execPhaseStart s"
  "ledsA (applyPhases pp s) = setRoadLights (fst pp)"
  "ledsB (applyPhases pp s) = setRoadLights (snd pp)"
  "applyPhases pp (applyPhases qq s) = applyPhases pp s"
  by (simp_all add: applyPhases_def light_defs)

lemma loop_in_window:
  assumes "sysState s = STATE_EXECUTING_TIMES"
    and "\<not> (buttonA1 env \<and> buttonA2 env)" and "\<not> (buttonB1 env \<and> buttonB2 env)"
    and "unat (greenDurationA s) + unat (greenDurationB s) + 6000 < 2 ^ 32"
    and "unat (millisLoop env - execPhaseStart s) <
           unat (if executingAfirst s then greenDurationA s else greenDurationB s)
      \<longrightarrow> ledsA s = setRoadLights (if executingAfirst s then PHASE_GREEN else PHASE_RED) \<and>
          ledsB s = setRoadLights (if executingAfirst s then PHASE_RED else PHASE_GREEN)"
    and "unat (millisLoop env - execPhaseStart s) <
           unat (greenDurationA s) + unat (greenDurationB s) + 6000"
  shows "loop s env =
    applyPhases (the (spec_phaseAt (executingAfirst s) (unat (greenDurationA s))
      (unat (greenDurationB s)) (unat (millisLoop env - execPhaseStart s)))) s"
proof -
  from spec_phaseAt_Some[OF assms(6)] obtain pa pb where
    sp: "spec_phaseAt (executingAfirst s) (unat (greenDurationA s))
      (unat (greenDurationB s)) (unat (millisLoop env - execPhaseStart s)) = Some (pa, pb)"
    by blast
  show ?thesis
    using loop_executing[OF assms(1-5)] by (simp add: sp applyPhases_def light_defs)
qed

lemma runLoop_window:
  assumes "sysState s = STATE_EXECUTING_TIMES"
    and "unat (greenDurationA s) + unat (greenDurationB s) + 6000 < 2 ^ 32"
    and "\<forall>e\<in>set envs. \<not> (buttonA1 e \<and> buttonA2 e) \<and> \<not> (buttonB1 e \<and> buttonB2 e)"
    and "sorted (map (\<lambda>e. unat (millisLoop e - execPhaseStart s)) envs)"
    and "\<forall>e\<in>set envs. unat (millisLoop e - execPhaseStart s) <
           unat (greenDurationA s) + unat (greenDurationB s) + 6000"
    and "envs \<noteq> []"
    and "unat (millisLoop (hd envs) - execPhaseStart s) <
           unat (if executingAfirst s then greenDurationA s else greenDurationB s)
      \<longrightarrow> ledsA s = setRoadLights (if executingAfirst s then PHASE_GREEN else PHASE_RED) \<and>
          ledsB s = setRoadLights (if executingAfirst s then PHASE_RED else PHASE_GREEN)"
  shows "runLoop s envs =
    applyPhases (the (spec_phaseAt (executingAfirst s) (unat (greenDurationA s))
      (unat (greenDurationB s)) (unat (millisLoop (last envs) - execPhaseStart s)))) s"
  using assms
proof (induction envs arbitrary: s)
  case Nil
  then show ?case by simp
next
  case (Cons env envs)
  let ?sp = "spec_phaseAt (executingAfirst s) (unat (greenDurationA s)) (unat (greenDurationB s))"
  let ?e = "unat (millisLoop env - execPhaseStart s)"
  let ?s1 = "applyPhases (the (?sp ?e)) s"
  have nb: "\<not> (buttonA1 env \<and> buttonA2 env)" "\<not> (buttonB1 env \<and> buttonB2 env)"
    using Cons.prems(3) by simp_all
  have within: "?e < unat (greenDurationA s) + unat (greenDurationB s) + 6000"
    using Cons.prems(5) by simp
  have first: "?e < unat (if executingAfirst s then greenDurationA s else greenDurationB s)
      \<longrightarrow> ledsA s = setRoadLights (if executingAfirst s then PHASE_GREEN else PHASE_RED) \<and>
          ledsB s = setRoadLights (if executingAfirst s then PHASE_RED else PHASE_GREEN)"
    using Cons.prems(7) by simp
  have step: "loop s env = ?s1"
    by (rule loop_in_window[OF Cons.prems(1) nb Cons.prems(2) first within])
  show ?case
  proof (cases "envs = []")
    case True
    then show ?thesis using step by simp
  next
    case False
    have le: "?e \<le> unat (millisLoop (hd envs) - execPhaseStart s)"
      using Cons.prems(4) False by (cases envs) simp_all
    have keep: "unat (millisLoop (hd envs) - execPhaseStart ?s1) <
           unat (if executingAfirst ?s1 then greenDurationA ?s1 else greenDurationB ?s1)
      \<longrightarrow> ledsA ?s1 = setRoadLights (if executingAfirst ?s1 then PHASE_GREEN else PHASE_RED) \<and>
          ledsB ?s1 = setRoadLights (if executingAfirst ?s1 then PHASE_RED else PHASE_GREEN)"
    proof
      assume "unat (millisLoop (hd envs) - execPhaseStart ?s1) <
           unat (if executingAfirst ?s1 then greenDurationA ?s1 else greenDurationB ?s1)"
      then have "?e < (if executingAfirst s then unat (greenDurationA s) else unat (greenDurationB s))"
        using le by (simp add: applyPhases_fields split: if_splits)
      from spec_phaseAt_first[OF this]
      show "ledsA ?s1 = setRoadLights (if executingAfirst ?s1 then PHASE_GREEN else PHASE_RED) \<and>
          ledsB ?s1 = setRoadLights (if executingAfirst ?s1 then PHASE_RED else PHASE_GREEN)"
        by (simp add: applyPhases_fields)
    qed
    have "runLoop ?s1 envs =
      applyPhases (the (spec_phaseAt (executingAfirst ?s1) (unat (greenDurationA ?s1))
        (unat (greenDurationB ?s1)) (unat (millisLoop (last envs) - execPhaseStart ?s1)))) ?s1"
    proof (rule Cons.IH)
      show "sysState ?s1 = STATE_EXECUTING_TIMES"
        using Cons.prems(1) by (simp add: applyPhases_fields)
      show "unat (greenDurationA ?s1) + unat (greenDurationB ?s1) + 6000 < 2 ^ 32"
        using Cons.prems(2) by (simp add: applyPhases_fields)
      show "\<forall>e\<in>set envs. \<not> (buttonA1 e \<and> buttonA2 e) \<and> \<not> (buttonB1 e \<and> buttonB2 e)"
        using Cons.prems(3) by simp
      show "sorted (map (\<lambda>e. unat (millisLoop e - execPhaseStart ?s1)) envs)"
        using Cons.prems(4) by (simp add: applyPhases_fields)
      show "\<forall>e\<in>set envs. unat (millisLoop e - execPhaseStart ?s1) <
           unat (greenDurationA ?s1) + unat (greenDurationB ?s1) + 6000"
        using Cons.prems(5) by (simp add: applyPhases_fields)
      show "envs \<noteq> []" by (rule False)
      show "unat (millisLoop (hd envs) - execPhaseStart ?s1) <
           unat (if executingAfirst ?s1 then greenDurationA ?s1 else greenDurationB ?s1)
        \<longrightarrow> ledsA ?s1 = setRoadLights (if executingAfirst ?s1 then PHASE_GREEN else PHASE_RED) \<and>
          ledsB ?s1 = setRoadLights (if executingAfirst ?s1 then PHASE_RED else PHASE_GREEN)"
        by (rule keep)
    qed
    then show ?thesis using step False by (simp add: applyPhases_fields)
  qed
qed

lemma runLoop_append: "runLoop s (xs @ ys) = runLoop (runLoop s xs) ys"
  by (induction xs arbitrary: s) simp_all

lemma applyPhases_own:
  "ledsA s = setRoadLights pa \<Longrightarrow> ledsB s = setRoadLights pb \<Longrightarrow> applyPhases (pa, pb) s = s"
  by (simp add: applyPhases_def light_defs)

lemma resetCountingCycle_fields:
  "sysState (resetCountingCycle t s) = STATE_COUNTING"
  "countA (resetCountingCycle t s) = 0" "countB (resetCountingCycle t s) = 0"
  "sA (resetCountingCycle t s) = SensorState_init" "sB (resetCountingCycle t s) = SensorState_init"
  "cycleStartTime (resetCountingCycle t s) = t"
  by (simp_all add: resetCountingCycle_def)

lemma startExecutionPhase_opens_window:
  "sysState (startExecutionPhase t s) = STATE_EXECUTING_TIMES \<and>
   ledsA (startExecutionPhase t s) =
     lamps (if executingAfirst (startExecutionPhase t s) then PHASE_GREEN else PHASE_RED) \<and>
   ledsB (startExecutionPhase t s) =
     lamps (if executingAfirst (startExecutionPhase t s) then PHASE_RED else PHASE_GREEN) \<and>
   unat (greenDurationA (startExecutionPhase t s)) +
     unat (greenDurationB (startExecutionPhase t s)) + 6000 < 2 ^ 32"
proof -
  let ?a = "computeGreenMs (countA s) (countB s)"
  have a: "greenDurationA (startExecutionPhase t s) = ?a"
    "greenDurationB (startExecutionPhase t s) = CYCLE_TOTAL_MS - ?a"
    by (simp_all add: startExecutionPhase_def Let_def light_defs)
  have "unat ?a \<le> 90000" using computeGreenMs_range[of "countA s" "countB s"] by simp
  then have "unat ?a + unat (CYCLE_TOTAL_MS - ?a) = 120000"
    by (simp add: CYCLE_TOTAL_MS_def unat_sub_if_size)
  then show ?thesis by (simp add: lamps_eq a startExecutionPhase_fields)
qed

text \<open>
  Claim C6. Take any plan whose segments fit into 32 bits, the state at the start of its
  execution window (the first road green, the other red), and runs of \<^verbatim>\<open>loop()\<close>
  without emergency signal whose elapsed times do not decrease and stay inside the
  window, followed by one more run. After that run the lights are the phase pair that
  the specification assigns to its elapsed time and nothing else has changed: green for
  the first road for its duration, yellow for it for 3 s, green for the other road for
  its duration, yellow for it for 3 s, the other road red meanwhile, each boundary
  belonging to the segment that begins there. If the elapsed time of that run is at or
  past the end of the fourth segment, the run starts a new counting cycle. The witness
  is the plan of the claim: road A first, 50 s and 70 s.
\<close>

theorem execution_window_segments:
  assumes "sysState s = STATE_EXECUTING_TIMES"
    and "ledsA s = lamps (if executingAfirst s then PHASE_GREEN else PHASE_RED)"
    and "ledsB s = lamps (if executingAfirst s then PHASE_RED else PHASE_GREEN)"
    and "unat (greenDurationA s) + unat (greenDurationB s) + 6000 < 2 ^ 32"
    and "\<forall>e\<in>set (envs @ [env]). \<not> (buttonA1 e \<and> buttonA2 e) \<and> \<not> (buttonB1 e \<and> buttonB2 e)"
    and "sorted (map (\<lambda>e. unat (millisLoop e - execPhaseStart s)) (envs @ [env]))"
    and "\<forall>e\<in>set envs. unat (millisLoop e - execPhaseStart s) <
           unat (greenDurationA s) + unat (greenDurationB s) + 6000"
  shows "case spec_phaseAt (executingAfirst s) (unat (greenDurationA s)) (unat (greenDurationB s))
            (unat (millisLoop env - execPhaseStart s)) of
       Some (pa, pb) \<Rightarrow>
         runLoop s (envs @ [env]) = s\<lparr>ledsA := lamps pa, ledsB := lamps pb\<rparr>
     | None \<Rightarrow>
         sysState (runLoop s (envs @ [env])) = STATE_COUNTING \<and>
         countA (runLoop s (envs @ [env])) = 0 \<and> countB (runLoop s (envs @ [env])) = 0 \<and>
         cycleStartTime (runLoop s (envs @ [env])) = millisReset env"
proof -
  have lights: "ledsA s = setRoadLights (if executingAfirst s then PHASE_GREEN else PHASE_RED)"
    "ledsB s = setRoadLights (if executingAfirst s then PHASE_RED else PHASE_GREEN)"
    using assms(2,3) by (simp_all add: lamps_eq)
  let ?sp = "spec_phaseAt (executingAfirst s) (unat (greenDurationA s)) (unat (greenDurationB s))"
  let ?el = "\<lambda>e. unat (millisLoop e - execPhaseStart s)"
  let ?first = "(if executingAfirst s then PHASE_GREEN else PHASE_RED,
                 if executingAfirst s then PHASE_RED else PHASE_GREEN)"
  have nb: "\<not> (buttonA1 env \<and> buttonA2 env)" "\<not> (buttonB1 env \<and> buttonB2 env)"
    using assms(5) by simp_all
  have nbs: "\<forall>e\<in>set envs. \<not> (buttonA1 e \<and> buttonA2 e) \<and> \<not> (buttonB1 e \<and> buttonB2 e)"
    using assms(5) by simp
  have so: "sorted (map ?el envs)" and last_le: "\<forall>e\<in>set envs. ?el e \<le> ?el env"
    using assms(6) by (simp_all add: sorted_append)
  have "\<exists>pp. runLoop s envs = applyPhases pp s \<and>
     (?el env < (if executingAfirst s then unat (greenDurationA s) else unat (greenDurationB s))
        \<longrightarrow> pp = ?first)"
  proof (cases "envs = []")
    case True
    have "applyPhases ?first s = s"
      using lights by (intro applyPhases_own) simp_all
    then show ?thesis using True by (intro exI[of _ ?first]) simp
  next
    case False
    have start: "unat (millisLoop (hd envs) - execPhaseStart s) <
           unat (if executingAfirst s then greenDurationA s else greenDurationB s)
      \<longrightarrow> ledsA s = setRoadLights (if executingAfirst s then PHASE_GREEN else PHASE_RED) \<and>
          ledsB s = setRoadLights (if executingAfirst s then PHASE_RED else PHASE_GREEN)"
      using lights by simp
    note r = runLoop_window[OF assms(1,4) nbs so assms(7) False start]
    have "?el (last envs) \<le> ?el env" using last_le False by simp
    then have "?el env < (if executingAfirst s then unat (greenDurationA s) else unat (greenDurationB s))
        \<longrightarrow> the (?sp (?el (last envs))) = ?first"
      using spec_phaseAt_first[of "?el (last envs)" "executingAfirst s"
          "unat (greenDurationA s)" "unat (greenDurationB s)"]
      by (simp split: if_splits)
    then show ?thesis using r by (intro exI[of _ "the (?sp (?el (last envs)))"]) simp
  qed
  then obtain pp where run: "runLoop s envs = applyPhases pp s"
    and pp: "?el env < (if executingAfirst s then unat (greenDurationA s) else unat (greenDurationB s))
        \<longrightarrow> pp = ?first"
    by blast
  let ?s1 = "applyPhases pp s"
  have exec1: "sysState ?s1 = STATE_EXECUTING_TIMES"
    using assms(1) by (simp add: applyPhases_fields)
  have fit1: "unat (greenDurationA ?s1) + unat (greenDurationB ?s1) + 6000 < 2 ^ 32"
    using assms(4) by (simp add: applyPhases_fields)
  have first1: "unat (millisLoop env - execPhaseStart ?s1) <
           unat (if executingAfirst ?s1 then greenDurationA ?s1 else greenDurationB ?s1)
      \<longrightarrow> ledsA ?s1 = setRoadLights (if executingAfirst ?s1 then PHASE_GREEN else PHASE_RED) \<and>
          ledsB ?s1 = setRoadLights (if executingAfirst ?s1 then PHASE_RED else PHASE_GREEN)"
    using pp by (simp add: applyPhases_fields split: if_splits)
  have step: "loop ?s1 env =
    (case ?sp (?el env) of
       Some (pa, pb) \<Rightarrow> ?s1\<lparr>ledsA := setRoadLights pa, ledsB := setRoadLights pb\<rparr>
     | None \<Rightarrow> resetCountingCycle (millisReset env) ?s1)"
    using loop_executing[OF exec1 nb fit1 first1] by (simp add: applyPhases_fields)
  have all: "runLoop s (envs @ [env]) = loop ?s1 env"
    by (simp add: runLoop_append run)
  show ?thesis
  proof (cases "?sp (?el env)")
    case None
    then show ?thesis by (simp add: lamps_eq all step resetCountingCycle_fields)
  next
    case (Some qq)
    obtain pa pb where qq: "qq = (pa, pb)" by (cases qq)
    have "?s1\<lparr>ledsA := setRoadLights pa, ledsB := setRoadLights pb\<rparr> =
        s\<lparr>ledsA := setRoadLights pa, ledsB := setRoadLights pb\<rparr>"
      by (simp add: applyPhases_def light_defs)
    then show ?thesis using Some qq by (simp add: lamps_eq all step)
  qed
qed

lemma windowStart_fields:
  "sysState windowStart = STATE_EXECUTING_TIMES" "executingAfirst windowStart"
  "greenDurationA windowStart = 50000" "greenDurationB windowStart = 70000"
  "execPhaseStart windowStart = 1000"
  "ledsA windowStart = setRoadLights PHASE_GREEN" "ledsB windowStart = setRoadLights PHASE_RED"
  by (simp_all add: windowStart_def)

lemma quietEnv_fields:
  "millisLoop (quietEnv t) = t" "millisReset (quietEnv t) = t"
  "\<not> buttonA1 (quietEnv t)" "\<not> buttonB1 (quietEnv t)"
  by (simp_all add: quietEnv_def)

lemma sample_segments:
  "spec_phaseAt True 50000 70000 0 = Some (PHASE_GREEN, PHASE_RED)"
  "spec_phaseAt True 50000 70000 49999 = Some (PHASE_GREEN, PHASE_RED)"
  "spec_phaseAt True 50000 70000 50000 = Some (PHASE_YELLOW, PHASE_RED)"
  "spec_phaseAt True 50000 70000 52999 = Some (PHASE_YELLOW, PHASE_RED)"
  "spec_phaseAt True 50000 70000 53000 = Some (PHASE_RED, PHASE_GREEN)"
  "spec_phaseAt True 50000 70000 122999 = Some (PHASE_RED, PHASE_GREEN)"
  "spec_phaseAt True 50000 70000 123000 = Some (PHASE_RED, PHASE_YELLOW)"
  "spec_phaseAt True 50000 70000 125999 = Some (PHASE_RED, PHASE_YELLOW)"
  "spec_phaseAt True 50000 70000 126000 = None"
  by (simp_all add: spec_phaseAt_def)

theorem execution_window_segments_witness:
  "sysState windowStart = STATE_EXECUTING_TIMES \<and> executingAfirst windowStart \<and>
   greenDurationA windowStart = 50000 \<and> greenDurationB windowStart = 70000 \<and>
   runLoop windowStart [quietEnv 1000, quietEnv 50999] = windowStart \<and>
   runLoop windowStart [quietEnv 1000, quietEnv 50999, quietEnv 51000, quietEnv 53999] =
     windowStart\<lparr>ledsA := lamps PHASE_YELLOW, ledsB := lamps PHASE_RED\<rparr> \<and>
   runLoop windowStart [quietEnv 50999, quietEnv 53999, quietEnv 54000, quietEnv 123999] =
     windowStart\<lparr>ledsA := lamps PHASE_RED, ledsB := lamps PHASE_GREEN\<rparr> \<and>
   runLoop windowStart [quietEnv 53999, quietEnv 123999, quietEnv 124000, quietEnv 126999] =
     windowStart\<lparr>ledsA := lamps PHASE_RED, ledsB := lamps PHASE_YELLOW\<rparr> \<and>
   sysState (runLoop windowStart [quietEnv 50999, quietEnv 126999, quietEnv 127000]) =
     STATE_COUNTING"
proof -
  note f = windowStart_fields quietEnv_fields sample_segments
  have fit: "unat (greenDurationA windowStart) + unat (greenDurationB windowStart) + 6000 < 2 ^ 32"
    by (simp add: lamps_eq f)
  have 1: "runLoop windowStart ([quietEnv 1000] @ [quietEnv 50999]) =
     windowStart\<lparr>ledsA := lamps PHASE_GREEN, ledsB := lamps PHASE_RED\<rparr>"
    using execution_window_segments[of windowStart "[quietEnv 1000]" "quietEnv 50999"] fit
    by (simp add: lamps_eq f)
  have 2: "runLoop windowStart ([quietEnv 1000, quietEnv 50999, quietEnv 51000] @ [quietEnv 53999]) =
     windowStart\<lparr>ledsA := lamps PHASE_YELLOW, ledsB := lamps PHASE_RED\<rparr>"
    using execution_window_segments[of windowStart "[quietEnv 1000, quietEnv 50999, quietEnv 51000]"
        "quietEnv 53999"] fit
    by (simp add: lamps_eq f)
  have 3: "runLoop windowStart ([quietEnv 50999, quietEnv 53999, quietEnv 54000] @ [quietEnv 123999]) =
     windowStart\<lparr>ledsA := lamps PHASE_RED, ledsB := lamps PHASE_GREEN\<rparr>"
    using execution_window_segments[of windowStart "[quietEnv 50999, quietEnv 53999, quietEnv 54000]"
        "quietEnv 123999"] fit
    by (simp add: lamps_eq f)
  have 4: "runLoop windowStart ([quietEnv 53999, quietEnv 123999, quietEnv 124000] @ [quietEnv 126999]) =
     windowStart\<lparr>ledsA := lamps PHASE_RED, ledsB := lamps PHASE_YELLOW\<rparr>"
    using execution_window_segments[of windowStart "[quietEnv 53999, quietEnv 123999, quietEnv 124000]"
        "quietEnv 126999"] fit
    by (simp add: lamps_eq f)
  have 5: "sysState (runLoop windowStart ([quietEnv 50999, quietEnv 126999] @ [quietEnv 127000])) =
     STATE_COUNTING"
    using execution_window_segments[of windowStart "[quietEnv 50999, quietEnv 126999]"
        "quietEnv 127000"] fit
    by (simp add: lamps_eq f)
  have own: "windowStart\<lparr>ledsA := setRoadLights PHASE_GREEN, ledsB := setRoadLights PHASE_RED\<rparr> =
      windowStart"
    by (simp add: windowStart_def)
  show ?thesis using 1 2 3 4 5 by (simp add: lamps_eq f own del: runLoop.simps)
qed

section \<open>Equal counts\<close>

text \<open>A number with a significand below \<open>2\<^sup>2\<^sup>4\<close> at an exponent of the format is a float.\<close>

lemma f32_exp_le:
  assumes "\<bar>q\<bar> < 2 powi (e + 1)" "- 126 \<le> e"
  shows "f32_exp q \<le> e"
proof (rule ccontr)
  assume "\<not> f32_exp q \<le> e"
  then have lt: "e + 1 \<le> f32_exp q" by simp
  then have "2 powi (f32_exp q) \<le> \<bar>q\<bar>" using assms(2) by (intro f32_exp_lower) simp
  moreover have "(2::rat) powi (e + 1) \<le> 2 powi (f32_exp q)"
    using lt by (intro power_int_increasing) simp_all
  ultimately show False using assms(1) by simp
qed

lemma f32_exact:
  assumes "\<bar>m\<bar> < 2 ^ 24" "- 149 \<le> j"
  shows "f32 (of_int m * 2 powi j) = of_int m * 2 powi j"
proof -
  let ?q = "of_int m * 2 powi j :: rat"
  define E where "E = f32_exp ?q"
  define U :: rat where "U = 2 powi (E - 23)"
  define J :: rat where "J = 2 powi j"
  have U: "0 < U" by (simp add: U_def)
  have f: "f32 ?q = of_int (rne (?q / U)) * U"
    by (simp add: f32_def ulp_def E_def U_def)
  have "\<bar>?q\<bar> = of_int \<bar>m\<bar> * 2 powi j" by (simp add: abs_mult)
  also have "\<dots> < of_int (2 ^ 24) * 2 powi j"
    using assms(1) by (intro mult_strict_right_mono) simp_all
  also have "\<dots> = 2 powi (23 + j + 1)"
  proof -
    have "(2::rat) powi (24 + j) = 2 powi 24 * 2 powi j"
      by (metis power_int_add zero_neq_numeral)
    then show ?thesis by (simp add: add.commute add.left_commute)
  qed
  finally have "E \<le> 23 + j" unfolding E_def using assms(2) by (intro f32_exp_le) simp_all
  then have k: "0 \<le> j - (E - 23)" by simp
  define k where "k = nat (j - (E - 23))"
  have "j = int k + (E - 23)" using k by (simp add: k_def)
  then have "(2::rat) powi j = 2 powi (int k) * 2 powi (E - 23)"
    by (metis power_int_add zero_neq_numeral)
  moreover have "(2::rat) powi (int k) = of_int (2 ^ k)"
    by (simp add: power_int_def)
  ultimately have p: "J = of_int (2 ^ k) * U"
    by (simp only: U_def J_def)
  have "of_int m * J / U = of_int (m * 2 ^ k)"
    using U by (simp add: p)
  then have "rne (of_int m * J / U) = m * 2 ^ k" by (simp only: rne_of_int)
  then have "of_int (rne (of_int m * J / U)) * U = of_int (m * 2 ^ k) * U" by simp
  also have "\<dots> = of_int m * J" by (simp add: p)
  finally show ?thesis using f by (simp add: J_def)
qed

lemma f32_of_nat: "n < 2 ^ 24 \<Longrightarrow> f32 (of_nat n) = of_nat n"
  using f32_exact[of "int n" 0] by simp

lemma f32_0 [simp]: "f32 0 = 0"
  using f32_exact[of 0 0] by simp

lemma f32_60000: "f32 60000 = 60000"
  using f32_exact[of 60000 0] by simp

lemma f32_half [simp]: "f32 (1 / 2) = 1 / 2"
  using f32_exact[of 1 "- 1"] by simp

lemma f32_bounds:
  "f32 (255 / 512) = 255 / 512" "f32 (3825 / 128) = 3825 / 128"
  "f32 (7665 / 128) = 7665 / 128" "f32 (958125 / 16) = 958125 / 16"
  using f32_exact[of 255 "- 9"] f32_exact[of 3825 "- 7"] f32_exact[of 7665 "- 7"]
    f32_exact[of 958125 "- 4"]
  by simp_all

lemma f32_eps: "f32 (1 / 100) = 5368709 / 536870912"
  using f32_eqI[of "- 7" "1 / 100" 10737418] by simp

lemma f32_small_ints [simp]: "f32 1 = 1" "f32 2 = 2"
  using f32_exact[of 1 0] f32_exact[of 2 0] by simp_all

lemma float_of_uint_exact: "float_of_uint x = of_nat (unat x)"
proof -
  have "unat x < 2 ^ 16" using unsigned_less[of x, where 'a = nat] by simp
  then have "unat x < 2 ^ 24" by simp
  then show ?thesis unfolding float_of_uint_def by (rule f32_of_nat)
qed

text \<open>The roundings on the way from the counts (1, 1) to the green time.\<close>

lemma rounding_steps_1_1:
  "f32 (1079110533 / 536870912) = 8430551 / 4194304"
  "f32 (4194304 / 8430551) = 16693747 / 33554432"
  "f32 (250406205 / 8388608) = 3912597 / 131072"
  "f32 (7844757 / 131072) = 7844757 / 131072"
  "f32 (980594625 / 16384) = 15321791 / 256"
  using f32_eqI[of 1 "1079110533 / 536870912" 8430551]
    f32_eqI[of "- 2" "4194304 / 8430551" 16693747]
    f32_eqI[of 4 "250406205 / 8388608" 15650388]
    f32_eqI[of 5 "7844757 / 131072" 15689514]
    f32_eqI[of 15 "980594625 / 16384" 15321791]
  by simp_all

lemma computeGreenMs_1_1: "computeGreenMs 1 1 = 59850"
proof -
  have fx: "float_of_uint 1 = 1" by (simp add: float_of_uint_exact)
  have fl: "\<lfloor>15321791 / 256 :: rat\<rfloor> = 59850"
    by (rule floor_unique) simp_all
  show ?thesis
    by (simp add: computeGreenMs_def Let_def fx f32_eps rounding_steps_1_1 ulong_of_float_def fl)
qed

lemma computeGreenMs_0_0: "computeGreenMs 0 0 = 30000"
proof -
  have fx: "float_of_uint 0 = 0" by (simp add: float_of_uint_exact)
  have e: "f32 (5368709 / 536870912) = 5368709 / 536870912"
    using f32_exact[of 5368709 "- 29"] by simp
  have "ulong_of_float 30000 = 30000" by (simp add: ulong_of_float_def)
  then show ?thesis
    by (simp add: computeGreenMs_def Let_def fx f32_eps e f32_30000)
qed

lemma pow128_big: "q \<le> 2 ^ 20 \<Longrightarrow> q < (2::rat) powi 128"
proof -
  assume "q \<le> 2 ^ 20"
  moreover have "(2::rat) ^ 20 < 2 ^ 128" by simp
  ultimately have "q < 2 ^ 128" by (rule le_less_trans)
  then show ?thesis by (simp add: power_int_def)
qed

text \<open>
  The divisor of the ratio is positive for all counts, so the alternative \<^verbatim>\<open>0.5f\<close> of
  the conditional is never taken.
\<close>

lemma denom_positive:
  "0 < f32 (f32 (float_of_uint x + float_of_uint y) + f32 (1 / 100))"
proof -
  define q where "q = f32 (float_of_uint x + float_of_uint y)"
  have "unat x < 2 ^ 16" "unat y < 2 ^ 16"
    using unsigned_less[of x, where 'a = nat] unsigned_less[of y, where 'a = nat] by simp_all
  then have "unat x + unat y < 2 ^ 24" by simp
  then have "f32 (of_nat (unat x + unat y)) = of_nat (unat x + unat y)" by (rule f32_of_nat)
  then have q: "q = of_nat (unat x + unat y)"
    by (simp only: q_def float_of_uint_exact of_nat_add)
  have q0: "0 \<le> q" by (simp only: q of_nat_0_le_iff)
  have "(of_nat (unat x + unat y) :: rat) \<le> of_nat (2 ^ 17)"
    using \<open>unat x < 2 ^ 16\<close> \<open>unat y < 2 ^ 16\<close> by (intro of_nat_mono) simp
  then have q1: "q \<le> 2 ^ 17" by (simp only: q of_nat_power of_nat_numeral)
  have e: "f32 (5368709 / 536870912) = 5368709 / 536870912"
    using f32_exact[of 5368709 "- 29"] by simp
  have "5368709 / 536870912 \<le> f32 (q + 5368709 / 536870912)"
    using q0 q1 by (intro f32_ge pow128_big e) simp_all
  then show ?thesis by (simp add: q_def f32_eps)
qed

text \<open>
  Every value that \<^verbatim>\<open>computeGreenMs\<close> computes is far inside the range of the format,
  so the results that \<open>f32\<close> leaves out (infinities, NaN) do not arise.
\<close>

lemma formula_values_finite:
  fixes x y :: "16 word"
  defines "denom \<equiv> f32 (f32 (float_of_uint x + float_of_uint y) + f32 (1 / 100))"
  defines "ratio \<equiv> f32 (float_of_uint x / denom)"
  defines "tsec \<equiv> f32 (f32 (ratio * f32 60) + f32 30)"
  shows "float_of_uint x \<le> 65535 \<and> float_of_uint y \<le> 65535 \<and>
    0 < denom \<and> denom \<le> 131072 \<and> 0 \<le> ratio \<and> ratio \<le> 1 \<and>
    0 \<le> f32 (ratio * f32 60) \<and> f32 (ratio * f32 60) \<le> 60 \<and>
    30 \<le> tsec \<and> tsec \<le> 90 \<and>
    30000 \<le> f32 (tsec * f32 1000) \<and> f32 (tsec * f32 1000) \<le> 90000"
proof -
  define a where "a = unat x"
  define b where "b = unat y"
  define X :: rat where "X = of_nat a"
  define Y :: rat where "Y = of_nat b"
  have "unat x < 2 ^ 16" "unat y < 2 ^ 16"
    using unsigned_less[of x, where 'a = nat] unsigned_less[of y, where 'a = nat] by simp_all
  then have ab: "a \<le> 65535" "b \<le> 65535" by (simp_all add: a_def b_def)
  have X: "0 \<le> X" "X \<le> 65535" using ab by (simp_all add: X_def)
  have Y: "0 \<le> Y" "Y \<le> 65535" using ab by (simp_all add: Y_def)
  have fx: "float_of_uint x = X" by (simp only: float_of_uint_exact X_def a_def)
  have fy: "float_of_uint y = Y" by (simp only: float_of_uint_exact Y_def b_def)
  have "f32 (of_nat (a + b)) = of_nat (a + b)"
    using ab by (intro f32_of_nat) simp
  then have sum: "f32 (X + Y) = X + Y" by (simp add: X_def Y_def)
  have d: "denom = f32 (X + Y + 5368709 / 536870912)"
    by (simp add: denom_def fx fy sum f32_eps)
  have top: "f32 131072 = 131072" using f32_exact[of 131072 0] by simp
  have one: "f32 1 = 1" by simp
  have dlo: "X + Y \<le> denom"
    unfolding d using X Y sum by (intro f32_ge pow128_big) simp_all
  have dhi: "denom \<le> 131072"
    unfolding d using X Y by (intro f32_le top) simp_all
  have dpos: "0 < denom" unfolding denom_def by (rule denom_positive)
  have q0: "0 \<le> X / denom" using X(1) dpos by simp
  have q1: "X / denom \<le> 1" using dlo Y(1) dpos by (simp add: field_simps)
  have r0: "0 \<le> ratio" unfolding ratio_def fx by (rule f32_nonneg[OF q0])
  have r1: "ratio \<le> 1" unfolding ratio_def fx by (rule f32_le[OF q0 q1 one])
  have s0: "0 \<le> ratio * 60" using r0 by simp
  have s1: "ratio * 60 \<le> 60" using r1 by simp
  have m0: "0 \<le> f32 (ratio * 60)" by (rule f32_nonneg[OF s0])
  have m1: "f32 (ratio * 60) \<le> 60" by (rule f32_le[OF s0 s1 f32_60])
  have t0: "0 \<le> f32 (ratio * 60) + 30" using m0 by simp
  have t1: "30 \<le> f32 (ratio * 60) + 30" using m0 by simp
  have t2: "f32 (ratio * 60) + 30 \<le> 90" using m1 by simp
  have t3: "f32 (ratio * 60) + 30 < 2 powi 128"
    by (rule pow128_big) (rule order_trans[OF t2], simp)
  have ts: "tsec = f32 (f32 (ratio * 60) + 30)" by (simp add: tsec_def)
  have l: "30 \<le> tsec" unfolding ts by (rule f32_ge[OF _ t1 f32_30 t3]) simp
  have u: "tsec \<le> 90" unfolding ts by (rule f32_le[OF t0 t2 f32_90])
  have v: "30000 \<le> f32 (tsec * 1000)" "f32 (tsec * 1000) \<le> 90000"
    using clamp_ms_range[OF l u] by simp_all
  show ?thesis using X(2) Y(2) dpos dhi r0 r1 m0 m1 l u v by (simp add: fx fy)
qed

text \<open>
  Claim C2, as stated, fails: with one vehicle on each road the green times are
  59.850 s and 60.150 s, and with no vehicle at all they are 30 s and 90 s, since the
  ratio is \<open>0 / 0.01 = 0\<close> and the alternative \<^verbatim>\<open>0.5f\<close> is taken only for a divisor
  that is not positive.
\<close>

theorem equal_counts_not_even:
  "computeGreenMs 1 1 = 59850 \<and> CYCLE_TOTAL_MS - computeGreenMs 1 1 = 60150 \<and>
   computeGreenMs 0 0 = 30000 \<and> CYCLE_TOTAL_MS - computeGreenMs 0 0 = 90000"
  by (simp add: computeGreenMs_1_1 computeGreenMs_0_0 CYCLE_TOTAL_MS_def)

text \<open>
  For equal counts of at least two the divisor exceeds twice the count by the rounded
  \<^verbatim>\<open>0.01f\<close> only, so the ratio stays within \<open>[255/512, 1/2]\<close>; each later operation
  is bounded by floats on both sides. The count one is computed above.
\<close>

lemma equal_counts_seconds:
  assumes "2 \<le> unat n"
  shows "\<exists>v. computeGreenMs n n = ulong_of_float v \<and> 958125 / 16 \<le> v \<and> v \<le> 60000"
proof -
  define k where "k = unat n"
  define N :: rat where "N = of_nat k"
  have k0: "2 \<le> k" using assms by (simp add: k_def)
  have "unat n < 2 ^ 16" using unsigned_less[of n, where 'a = nat] by simp
  then have un: "k \<le> 65535" by (simp add: k_def)
  have N1: "2 \<le> N" using k0 by (simp add: N_def)
  have N2: "N \<le> 65535" using un by (simp add: N_def)
  have fx: "float_of_uint n = N" by (simp only: float_of_uint_exact N_def k_def)
  have "f32 (of_nat (k + k)) = of_nat (k + k)"
    using un by (intro f32_of_nat) simp
  then have sum: "f32 (N + N) = N + N" by (simp add: N_def)
  define denom where "denom = f32 (N + N + f32 (1 / 100))"
  define ratio where "ratio = f32 (N / denom)"
  define r60 where "r60 = f32 (ratio * 60)"
  define t0 where "t0 = f32 (r60 + 30)"
  define v where "v = f32 (t0 * 1000)"
  have dlo: "N + N \<le> denom"
    unfolding denom_def using N1 N2 sum
    by (intro f32_ge pow128_big) (simp_all add: f32_eps)
  have "f32 (of_int (128 * int k + 1) * 2 powi (- 6)) = of_int (128 * int k + 1) * 2 powi (- 6)"
    using un by (intro f32_exact) simp_all
  moreover have "(2::rat) powi (- 6) = 1 / 64"
    by (simp add: power_int_minus)
  then have "of_int (128 * int k + 1) * 2 powi (- 6) = N + N + 1 / 64"
    by (simp add: N_def)
  ultimately have top: "f32 (N + N + 1 / 64) = N + N + 1 / 64"
    by (simp only:)
  have dhi: "denom \<le> N + N + 1 / 64"
    unfolding denom_def using N1 top
    by (intro f32_le) (simp_all add: f32_eps)
  have dpos: "0 < denom" using dlo N1 by simp
  have q1: "N / denom \<le> 1 / 2"
    using dlo dpos by (simp add: field_simps)
  have q2: "255 / 512 \<le> N / denom"
  proof -
    have "255 / 512 * denom \<le> 255 / 512 * (N + N + 1 / 64)"
      using dhi by (intro mult_left_mono) simp_all
    also have "\<dots> \<le> N" using N1 by simp
    finally show ?thesis using dpos by (simp add: pos_le_divide_eq)
  qed
  have q0: "0 \<le> N / denom" using N1 dpos by simp
  have q3: "N / denom < 2 powi 128"
    by (rule pow128_big) (rule order_trans[OF q1], simp)
  have rlo: "255 / 512 \<le> ratio"
    unfolding ratio_def by (rule f32_ge[OF _ q2 f32_bounds(1) q3]) simp
  have rhi: "ratio \<le> 1 / 2"
    unfolding ratio_def by (rule f32_le[OF q0 q1 f32_half])
  have s1: "3825 / 128 \<le> ratio * 60" using rlo by linarith
  have s2: "ratio * 60 \<le> 30" using rhi by linarith
  have s0: "0 \<le> ratio * 60" using s1 by linarith
  have s3: "ratio * 60 < 2 powi 128"
    by (rule pow128_big) (rule order_trans[OF s2], simp)
  have slo: "3825 / 128 \<le> r60"
    unfolding r60_def by (rule f32_ge[OF _ s1 f32_bounds(2) s3]) simp
  have shi: "r60 \<le> 30"
    unfolding r60_def by (rule f32_le[OF s0 s2 f32_30])
  have t1: "7665 / 128 \<le> r60 + 30" using slo by linarith
  have t2: "r60 + 30 \<le> 60" using shi by linarith
  have t3: "0 \<le> r60 + 30" using t1 by linarith
  have t4: "r60 + 30 < 2 powi 128"
    by (rule pow128_big) (rule order_trans[OF t2], simp)
  have tlo: "7665 / 128 \<le> t0"
    unfolding t0_def by (rule f32_ge[OF _ t1 f32_bounds(3) t4]) simp
  have thi: "t0 \<le> 60"
    unfolding t0_def by (rule f32_le[OF t3 t2 f32_60])
  have v1: "958125 / 16 \<le> t0 * 1000" using tlo by linarith
  have v2: "t0 * 1000 \<le> 60000" using thi by linarith
  have v3: "0 \<le> t0 * 1000" using v1 by linarith
  have v4: "t0 * 1000 < 2 powi 128"
    by (rule pow128_big) (rule order_trans[OF v2], simp)
  have vlo: "958125 / 16 \<le> v"
    unfolding v_def by (rule f32_ge[OF _ v1 f32_bounds(4) v4]) simp
  have vhi: "v \<le> 60000"
    unfolding v_def by (rule f32_le[OF v3 v2 f32_60000])
  have c1: "\<not> t0 < 30" using tlo by simp
  have c2: "\<not> 90 < t0" using thi by simp
  have sum2: "f32 (2 * N) = 2 * N" using sum by simp
  have "computeGreenMs n n = ulong_of_float v"
    using dpos c1 c2 unfolding denom_def ratio_def r60_def t0_def v_def
    by (simp add: computeGreenMs_def Let_def fx sum2)
  then show ?thesis using vlo vhi by blast
qed

lemma computeGreenMs_equal_counts:
  assumes "n \<noteq> 0"
  shows "59850 \<le> unat (computeGreenMs n n) \<and> unat (computeGreenMs n n) \<le> 60000"
proof (cases "unat n = 1")
  case True
  then have "unat n = unat (1 :: 16 word)" by simp
  then have "n = 1" by (simp only: word_unat_eq_iff)
  then show ?thesis by (simp add: computeGreenMs_1_1)
next
  case False
  have "0 < unat n" using assms by (simp add: unat_gt_0)
  then have "2 \<le> unat n" using False by simp
  from equal_counts_seconds[OF this] obtain v where
    v: "computeGreenMs n n = ulong_of_float v" "958125 / 16 \<le> v" "v \<le> 60000" by blast
  have "unat (ulong_of_float v) = nat \<lfloor>v\<rfloor>"
    using v(2,3) by (intro ulong_of_float_unat) simp_all
  moreover have "(59882::int) \<le> \<lfloor>v\<rfloor>"
    using v(2) le_floor_iff[of 59882 v] by simp
  moreover have "\<lfloor>v\<rfloor> \<le> (60000::int)"
    using v(3) floor_mono[of v 60000] by simp
  ultimately show ?thesis unfolding v(1) by linarith
qed

text \<open>
  Claim C2, amended. For equal counts \<open>n \<ge> 1\<close> the split is close to even but in
  general not even: road A gets between 59.850 s and 60 s, road B between 60 s and
  60.150 s, and the two add up to 120 s.
\<close>

theorem equal_counts_near_even:
  assumes "countA s = countB s" and "countA s \<noteq> 0"
  shows "59850 \<le> unat (greenDurationA (startExecutionPhase millis s)) \<and>
    unat (greenDurationA (startExecutionPhase millis s)) \<le> 60000 \<and>
    60000 \<le> unat (greenDurationB (startExecutionPhase millis s)) \<and>
    unat (greenDurationB (startExecutionPhase millis s)) \<le> 60150 \<and>
    unat (greenDurationA (startExecutionPhase millis s)) +
      unat (greenDurationB (startExecutionPhase millis s)) = 120000"
proof -
  let ?a = "computeGreenMs (countA s) (countA s)"
  have a: "greenDurationA (startExecutionPhase millis s) = ?a"
    using assms(1) by (simp add: startExecutionPhase_def Let_def light_defs)
  have b: "greenDurationB (startExecutionPhase millis s) = CYCLE_TOTAL_MS - ?a"
    using assms(1) by (simp add: startExecutionPhase_def Let_def light_defs)
  have r: "59850 \<le> unat ?a" "unat ?a \<le> 60000"
    using computeGreenMs_equal_counts[OF assms(2)] by simp_all
  have "unat (CYCLE_TOTAL_MS - ?a) = 120000 - unat ?a"
    using r(2) by (simp add: CYCLE_TOTAL_MS_def unat_sub_if_size)
  then show ?thesis using r unfolding a b by linarith
qed

theorem equal_counts_near_even_witness:
  "countA equalExample = countB equalExample \<and> countA equalExample \<noteq> 0 \<and>
   greenDurationA (startExecutionPhase 120100 equalExample) = 59850 \<and>
   greenDurationB (startExecutionPhase 120100 equalExample) = 60150 \<and>
   59850 \<le> unat (greenDurationA (startExecutionPhase 120100 equalExample)) \<and>
   unat (greenDurationA (startExecutionPhase 120100 equalExample)) \<le> 60000 \<and>
   unat (greenDurationA (startExecutionPhase 120100 equalExample)) +
     unat (greenDurationB (startExecutionPhase 120100 equalExample)) = 120000"
proof -
  have c: "countA equalExample = 1" "countB equalExample = 1"
    by (simp_all add: equalExample_def)
  have h: "countA equalExample = countB equalExample" "countA equalExample \<noteq> 0"
    by (simp_all add: c)
  have a: "greenDurationA (startExecutionPhase 120100 equalExample) = 59850"
    by (simp add: startExecutionPhase_def Let_def light_defs c computeGreenMs_1_1)
  have b: "greenDurationB (startExecutionPhase 120100 equalExample) = 60150"
    by (simp add: startExecutionPhase_def Let_def light_defs c computeGreenMs_1_1
        CYCLE_TOTAL_MS_def)
  from equal_counts_near_even[OF h, of 120100] show ?thesis
    using h a b by simp
qed

end
